theory Spec2Isabelle
  imports
    Main
    "HOL-Library.Finite_Map"
    "HOL-Library.AList"
    "HOL-Library.Char_ord"
    "HOL-Library.List_Lexorder"
begin

section \<open>JSON values\<close>

text \<open>
  The payloads handled by \<^verbatim>\<open>transformOneOfFieldsRecursive\<close> are the values that Go's
  \<^verbatim>\<open>encoding/json\<close> decodes into \<^verbatim>\<open>interface{}\<close>: \<^verbatim>\<open>nil\<close>, booleans, numbers, strings,
  \<^verbatim>\<open>[]interface{}\<close> and \<^verbatim>\<open>map[string]interface{}\<close>. A Go map has unique keys and no
  order, so an object is a finite map. Numbers are never inspected by the code modelled
  here; they are kept as integers. A decoded payload is a tree (no two places share a
  map), so the in-place mutation of the Go code is modelled by returning the new value.
\<close>

datatype json =
    JNull
  | JBool bool
  | JNum int
  | JStr string
  | JArr "json list"
  | JObj "(string, json) fmap"

type_synonym object = "(string, json) fmap"

section \<open>The union flattener\<close>

text \<open>
  \<^verbatim>\<open>strings.HasSuffix(s, suffix)\<close>:
  \<^verbatim>\<open>len(s) >= len(suffix) && s[len(s)-len(suffix):] == suffix\<close>.
\<close>

definition HasSuffix :: "string \<Rightarrow> string \<Rightarrow> bool" where
  "HasSuffix s suffix \<longleftrightarrow>
     length s \<ge> length suffix \<and> drop (length s - length suffix) s = suffix"

text \<open>
  The body of the first loop of \<^verbatim>\<open>transformOneOfFieldsRecursive\<close>
  (\<^verbatim>\<open>for key, value := range v { ... }\<close>) for one key. \<^verbatim>\<open>range\<close> produces a key only
  while it is in the map and hands over the value the map holds at that moment, hence
  the lookup in the current map; a key that is no longer (or not yet) there is passed over.
  Both branches end in \<^verbatim>\<open>v[typeStr] = ...; delete(v, key)\<close>, in this order.
\<close>

definition oneof_step :: "object \<Rightarrow> string \<Rightarrow> object" where
  "oneof_step v key =
     (case fmlookup v key of
        None \<Rightarrow> v
      | Some value \<Rightarrow>
          if HasSuffix key ''OneOfType'' then
            (case value of
               JObj unionObj \<Rightarrow>
                 (case fmlookup unionObj ''object_type'' of
                    Some (JStr typeStr) \<Rightarrow>
                      (case fmlookup unionObj typeStr of
                         Some fieldValue \<Rightarrow> fmdrop key (fmupd typeStr fieldValue v)
                       | None \<Rightarrow>
                           fmdrop key
                             (fmupd typeStr
                                (JObj (fmfilter (\<lambda>k. k \<noteq> ''object_type'') unionObj)) v))
                  | _ \<Rightarrow> v)
             | _ \<Rightarrow> v)
          else v)"

text \<open>
  Go leaves the order in which \<^verbatim>\<open>range\<close> visits a map unspecified, and an entry created
  during the loop may be visited or skipped. The order is therefore a parameter: \<open>visit v\<close>
  is the sequence of keys the first loop over the map \<open>v\<close> goes through. Every key that
  is in the map when the loop starts occurs in it; a key listed while it is not in the
  map is passed over by \<open>oneof_step\<close>, which is how a skipped new entry and a removed
  entry are represented.

  The second loop calls the function on every value of the map, and the slice case on
  every element; neither changes the keys.
\<close>

type_synonym visit_order = "object \<Rightarrow> string list"

function transformOneOfFieldsRecursive :: "visit_order \<Rightarrow> json \<Rightarrow> json" where
  "transformOneOfFieldsRecursive visit (JObj v) =
     JObj (fmmap (transformOneOfFieldsRecursive visit) (foldl oneof_step v (visit v)))"
| "transformOneOfFieldsRecursive visit (JArr v) =
     JArr (map (transformOneOfFieldsRecursive visit) v)"
| "transformOneOfFieldsRecursive visit JNull = JNull"
| "transformOneOfFieldsRecursive visit (JBool b) = JBool b"
| "transformOneOfFieldsRecursive visit (JNum n) = JNum n"
| "transformOneOfFieldsRecursive visit (JStr s) = JStr s"
  by pat_completeness auto

text \<open>
  Termination: a rewrite never puts a larger value into the map than the wrapper it
  replaces, so every value met after the first loop is smaller than the map itself.
\<close>

lemma size_fmlookup:
  assumes "fmlookup m k = Some z"
  shows "size z < size_fmap (\<lambda>_. 0) size m"
proof -
  have mem: "(k, z) \<in> fset (fset_of_fmap m)"
    using assms by simp
  have "(\<lambda>(a, b). Suc (size b)) (k, z)
          \<le> (\<Sum>x\<in>fset (fset_of_fmap m). (\<lambda>(a, b). Suc (size b)) x)"
    by (rule member_le_sum[OF mem]) simp_all
  then show ?thesis
    by (simp add: case_prod_unfold)
qed

lemma size_fmfilter:
  "size_fmap (\<lambda>_. 0) size (fmfilter P m) \<le> size_fmap (\<lambda>_. 0) (size :: json \<Rightarrow> nat) m"
proof -
  have sub: "fset (fset_of_fmap (fmfilter P m)) \<subseteq> fset (fset_of_fmap m)"
    by (auto split: if_splits)
  show ?thesis
    unfolding size_fmap_def size_fset_simps
    by (rule sum_mono2[OF _ sub]) simp_all
qed

lemma size_fmran': "x \<in> fmran' v \<Longrightarrow> size x < size (JObj v)"
proof -
  assume "x \<in> fmran' v"
  then obtain k where "fmlookup v k = Some x"
    by (auto simp: fmlookup_ran'_iff)
  from size_fmlookup[OF this] show ?thesis
    by (simp del: size_fmap_def)
qed

lemma oneof_step_bound:
  assumes "\<forall>z \<in> fmran' v. size z \<le> B"
  shows "\<forall>z \<in> fmran' (oneof_step v key). size z \<le> B"
proof
  fix z
  assume "z \<in> fmran' (oneof_step v key)"
  then obtain k where k: "fmlookup (oneof_step v key) k = Some z"
    by (auto simp: fmlookup_ran'_iff)
  have old: "size y \<le> B" if "fmlookup v k' = Some y" for k' y
    using assms that by (auto simp: fmlookup_ran'_iff)
  show "size z \<le> B"
  proof (cases "fmlookup v k = Some z")
    case True
    then show ?thesis by (rule old)
  next
    case False
    with k obtain u where u: "fmlookup v key = Some (JObj u)"
      and z: "(\<exists>kk. fmlookup u kk = Some z) \<or>
              z = JObj (fmfilter (\<lambda>k. k \<noteq> ''object_type'') u)"
      by (auto simp: oneof_step_def split: option.splits if_splits json.splits)
    from old[OF u] have ub: "size_fmap (\<lambda>_. 0) size u < B" by simp
    from z show ?thesis
    proof
      assume "\<exists>kk. fmlookup u kk = Some z"
      then obtain kk where "fmlookup u kk = Some z" ..
      from size_fmlookup[OF this] ub show ?thesis by simp
    next
      assume "z = JObj (fmfilter (\<lambda>k. k \<noteq> ''object_type'') u)"
      with size_fmfilter[of "\<lambda>k. k \<noteq> ''object_type''" u] ub show ?thesis by simp
    qed
  qed
qed

lemma oneof_loop_bound:
  "\<forall>z \<in> fmran' v. size z \<le> B \<Longrightarrow> \<forall>z \<in> fmran' (foldl oneof_step v ks). size z \<le> B"
proof (induction ks arbitrary: v)
  case Nil
  then show ?case by simp
next
  case (Cons k ks)
  from Cons.IH[OF oneof_step_bound[OF Cons.prems]] show ?case by simp
qed

termination transformOneOfFieldsRecursive
proof (relation "measure (\<lambda>(visit, v). size v)")
  fix visit :: visit_order and v z
  assume z: "z \<in> fmran' (foldl oneof_step v (visit v))"
  have "\<forall>y \<in> fmran' v. size y \<le> size_fmap (\<lambda>_. 0) size v"
    by (auto simp: fmlookup_ran'_iff dest!: size_fmlookup)
  from oneof_loop_bound[OF this] z have "size z \<le> size_fmap (\<lambda>_. 0) size v"
    by blast
  then show "((visit, z), (visit, JObj v)) \<in> measure (\<lambda>(visit, v). size v)"
    by simp
next
  fix visit :: visit_order and v :: "json list" and x
  assume "x \<in> set v"
  then show "((visit, x), (visit, JArr v)) \<in> measure (\<lambda>(visit, v). size v)"
    by (simp add: size_list_estimation' less_Suc_eq_le)
qed simp

subsection \<open>Wrappers, discriminators and the shapes of payloads\<close>

text \<open>
  What \<open>oneof_step\<close> decides at a key, read off its branches: \<open>Some (typeStr, x)\<close> when the
  rewrite fires (the key ends in \<^verbatim>\<open>OneOfType\<close>, its value is a map, and that map holds a
  string under \<^verbatim>\<open>object_type\<close>), where \<open>x\<close> is the value the rewrite stores under \<open>typeStr\<close>;
  \<open>None\<close> when the entry is passed over.
\<close>

definition oneof_variant :: "object \<Rightarrow> string \<Rightarrow> (string \<times> json) option" where
  "oneof_variant v key =
     (if HasSuffix key ''OneOfType'' then
        (case fmlookup v key of
           Some (JObj unionObj) \<Rightarrow>
             (case fmlookup unionObj ''object_type'' of
                Some (JStr typeStr) \<Rightarrow>
                  (case fmlookup unionObj typeStr of
                     Some fieldValue \<Rightarrow> Some (typeStr, fieldValue)
                   | None \<Rightarrow>
                       Some (typeStr, JObj (fmfilter (\<lambda>k. k \<noteq> ''object_type'') unionObj)))
              | _ \<Rightarrow> None)
         | _ \<Rightarrow> None)
      else None)"

text \<open>
  A wrapper value is malformed when the rewrite cannot fire on it: it is not a map, or
  the map has no \<^verbatim>\<open>object_type\<close>, or \<^verbatim>\<open>object_type\<close> is not a string.
\<close>

definition malformed_wrapper :: "json \<Rightarrow> bool" where
  "malformed_wrapper value =
     (case value of
        JObj unionObj \<Rightarrow>
          (case fmlookup unionObj ''object_type'' of Some (JStr typeStr) \<Rightarrow> False | _ \<Rightarrow> True)
      | _ \<Rightarrow> True)"

text \<open>
  The discriminators of a map are plain when none of them ends in \<^verbatim>\<open>OneOfType\<close>: no
  rewrite then stores its variant under a key that the loop would take for a wrapper, so
  no rewrite creates or overwrites a wrapper entry.
\<close>

definition plain_discriminators :: "object \<Rightarrow> bool" where
  "plain_discriminators v =
     (\<forall>k \<in> fmdom' v.
        case oneof_variant v k of
          None \<Rightarrow> True
        | Some (t, x) \<Rightarrow> \<not> HasSuffix t ''OneOfType'')"

text \<open>No wrapper of the map other than the one at \<open>key\<close> carries the discriminator \<open>t\<close>.\<close>

definition only_variant_named :: "string \<Rightarrow> string \<Rightarrow> object \<Rightarrow> bool" where
  "only_variant_named t key v =
     (\<forall>k \<in> fmdom' v. k \<noteq> key \<longrightarrow> map_option fst (oneof_variant v k) \<noteq> Some t)"

text \<open>
  The wrappers of one map do not interfere when no discriminator ends in \<^verbatim>\<open>OneOfType\<close>
  (so no rewrite creates or overwrites a wrapper key) and no two wrappers carry the same
  discriminator (so no rewrite overwrites what another one stored). Payloads that follow
  a compiled schema are of this shape: the discriminators of one message are the names
  of distinct fields.
\<close>

definition unambiguous :: "object \<Rightarrow> bool" where
  "unambiguous v =
     (\<forall>k \<in> fmdom' v.
        case oneof_variant v k of
          None \<Rightarrow> True
        | Some (t, x) \<Rightarrow>
            \<not> HasSuffix t ''OneOfType'' \<and>
            (\<forall>k' \<in> fmdom' v. k' \<noteq> k \<longrightarrow> map_option fst (oneof_variant v k') \<noteq> Some t))"

text \<open>A property of maps holds everywhere in a value when every map in it has it.\<close>

function everywhere :: "(object \<Rightarrow> bool) \<Rightarrow> json \<Rightarrow> bool" where
  "everywhere P (JObj v) \<longleftrightarrow> P v \<and> (\<forall>x \<in> fmran' v. everywhere P x)"
| "everywhere P (JArr xs) \<longleftrightarrow> (\<forall>x \<in> set xs. everywhere P x)"
| "everywhere P JNull \<longleftrightarrow> True"
| "everywhere P (JBool b) \<longleftrightarrow> True"
| "everywhere P (JNum n) \<longleftrightarrow> True"
| "everywhere P (JStr s) \<longleftrightarrow> True"
  by pat_completeness auto
termination
  by (relation "measure (\<lambda>(P, v). size v)")
    (auto dest: size_fmran' simp: size_list_estimation' less_Suc_eq_le simp del: size_fmap_def)

text \<open>A map is settled when the rewrite fires at none of its keys.\<close>

definition no_wrapper :: "object \<Rightarrow> bool" where
  "no_wrapper v = (\<forall>k \<in> fmdom' v. oneof_variant v k = None)"

text \<open>No wrapper of the map carries the discriminator \<open>t\<close>.\<close>

definition no_variant_named :: "string \<Rightarrow> object \<Rightarrow> bool" where
  "no_variant_named t v = (\<forall>k \<in> fmdom' v. map_option fst (oneof_variant v k) \<noteq> Some t)"

text \<open>One concrete visiting order that reaches every key: the keys in increasing order.\<close>

definition keys_sorted :: visit_order where
  "keys_sorted v = sorted_list_of_fset (fmdom v)"

text \<open>
  The wrappers of a map are well tagged when their discriminators are plain and none of
  them is \<^verbatim>\<open>object_type\<close> itself. Two wrappers of a well-tagged map may carry the same
  discriminator.
\<close>

definition well_tagged :: "object \<Rightarrow> bool" where
  "well_tagged v \<longleftrightarrow> plain_discriminators v \<and> no_variant_named ''object_type'' v"

subsection \<open>Example payloads\<close>

text \<open>
  The two scenarios of the specification:
  \<^verbatim>\<open>{"kindOneOfType": {"object_type": "opt_a", "opt_a": {"value": "x"}}}\<close> and
  \<^verbatim>\<open>{"kOneOfType": {"object_type": "s", "value": "hi"}}\<close>.
\<close>

definition message_variant_input :: object where
  "message_variant_input =
     fmupd ''kindOneOfType''
       (JObj (fmupd ''object_type'' (JStr ''opt_a'')
             (fmupd ''opt_a'' (JObj (fmupd ''value'' (JStr ''x'') fmempty)) fmempty)))
       fmempty"

definition primitive_variant_input :: object where
  "primitive_variant_input =
     fmupd ''kOneOfType''
       (JObj (fmupd ''object_type'' (JStr ''s'') (fmupd ''value'' (JStr ''hi'') fmempty)))
       fmempty"

text \<open>
  Wrappers whose discriminator is the wrapper's own key:
  \<^verbatim>\<open>{"aOneOfType": {"object_type": "aOneOfType", "aOneOfType": 3}}\<close> and
  \<^verbatim>\<open>{"aOneOfType": {"object_type": "aOneOfType", "value": "hi"}}\<close>.
\<close>

definition self_tagged_message :: object where
  "self_tagged_message =
     fmupd ''aOneOfType''
       (JObj (fmupd ''object_type'' (JStr ''aOneOfType'') (fmupd ''aOneOfType'' (JNum 3) fmempty)))
       fmempty"

definition self_tagged_primitive :: object where
  "self_tagged_primitive =
     fmupd ''aOneOfType''
       (JObj (fmupd ''object_type'' (JStr ''aOneOfType'') (fmupd ''value'' (JStr ''hi'') fmempty)))
       fmempty"

text \<open>
  A malformed wrapper (no \<^verbatim>\<open>object_type\<close>) around a wrapper whose discriminator is
  \<^verbatim>\<open>object_type\<close>: \<^verbatim>\<open>{"aOneOfType": {"zOneOfType": {"object_type": "object_type"}}}\<close>.
\<close>

definition retagging_input :: object where
  "retagging_input =
     fmupd ''aOneOfType''
       (JObj (fmupd ''zOneOfType''
               (JObj (fmupd ''object_type'' (JStr ''object_type'') fmempty)) fmempty))
       fmempty"

text \<open>
  Two wrappers with the same discriminator,
  \<^verbatim>\<open>{"aOneOfType": {"object_type": "x", "x": 1}, "bOneOfType": {"object_type": "x", "x": 2}}\<close>,
  and two with different ones,
  \<^verbatim>\<open>{"aOneOfType": {"object_type": "x", "x": 1}, "bOneOfType": {"object_type": "y", "value": 2}}\<close>.
\<close>

definition clashing_input :: object where
  "clashing_input =
     fmupd ''aOneOfType''
       (JObj (fmupd ''object_type'' (JStr ''x'') (fmupd ''x'' (JNum 1) fmempty)))
       (fmupd ''bOneOfType''
         (JObj (fmupd ''object_type'' (JStr ''x'') (fmupd ''x'' (JNum 2) fmempty)))
         fmempty)"

definition two_unions_input :: object where
  "two_unions_input =
     fmupd ''aOneOfType''
       (JObj (fmupd ''object_type'' (JStr ''x'') (fmupd ''x'' (JNum 1) fmempty)))
       (fmupd ''bOneOfType''
         (JObj (fmupd ''object_type'' (JStr ''y'') (fmupd ''value'' (JNum 2) fmempty)))
         fmempty)"


definition sibling_input :: object where
  "sibling_input =
     fmupd ''kOneOfType''
       (JObj (fmupd ''object_type'' (JStr ''x'') (fmupd ''x'' (JNum 1) fmempty)))
       (fmupd ''x'' (JNum 5) fmempty)"

text \<open>
  A wrapper and a malformed wrapper, each next to two wrappers that carry the same
  discriminator:
  \<^verbatim>\<open>{"kOneOfType": {"object_type": "a", "a": 1}, "aOneOfType": {"object_type": "x", "x": 1}, "bOneOfType": {"object_type": "x", "x": 2}}\<close>
  and
  \<^verbatim>\<open>{"mOneOfType": 5, "aOneOfType": {"object_type": "x", "x": 1}, "bOneOfType": {"object_type": "x", "x": 2}}\<close>.
\<close>

definition busy_input :: object where
  "busy_input =
     fmupd ''kOneOfType''
       (JObj (fmupd ''object_type'' (JStr ''a'') (fmupd ''a'' (JNum 1) fmempty)))
       clashing_input"


text \<open>
  Wrappers whose discriminator ends in \<^verbatim>\<open>OneOfType\<close>: one that names the key of a sibling
  wrapper,
  \<^verbatim>\<open>{"kOneOfType": {"object_type": "a", "a": 1}, "bOneOfType": {"object_type": "kOneOfType", "kOneOfType": 7}}\<close>,
  and one whose payload is a wrapper again,
  \<^verbatim>\<open>{"aOneOfType": {"object_type": "bOneOfType", "bOneOfType": {"object_type": "c", "c": 1}}}\<close>.
\<close>

definition retargeting_input :: object where
  "retargeting_input =
     fmupd ''kOneOfType''
       (JObj (fmupd ''object_type'' (JStr ''a'') (fmupd ''a'' (JNum 1) fmempty)))
       (fmupd ''bOneOfType''
         (JObj (fmupd ''object_type'' (JStr ''kOneOfType'') (fmupd ''kOneOfType'' (JNum 7) fmempty)))
         fmempty)"

definition rewrapping_input :: object where
  "rewrapping_input =
     fmupd ''aOneOfType''
       (JObj (fmupd ''object_type'' (JStr ''bOneOfType'')
             (fmupd ''bOneOfType''
               (JObj (fmupd ''object_type'' (JStr ''c'') (fmupd ''c'' (JNum 1) fmempty)))
               fmempty)))
       fmempty"

text \<open>
  A wrapper whose payload holds a wrapper,
  \<^verbatim>\<open>{"kOneOfType": {"object_type": "a", "a": {"zOneOfType": {"object_type": "b", "b": 1}}}}\<close>,
  and a malformed wrapper whose value holds a wrapper,
  \<^verbatim>\<open>{"kOneOfType": {"zOneOfType": {"object_type": "b", "b": 1}}}\<close>.
\<close>

definition nested_payload_input :: object where
  "nested_payload_input =
     fmupd ''kOneOfType''
       (JObj (fmupd ''object_type'' (JStr ''a'')
             (fmupd ''a''
               (JObj (fmupd ''zOneOfType''
                       (JObj (fmupd ''object_type'' (JStr ''b'') (fmupd ''b'' (JNum 1) fmempty)))
                       fmempty))
               fmempty)))
       fmempty"

definition nested_malformed_input :: object where
  "nested_malformed_input =
     fmupd ''kOneOfType''
       (JObj (fmupd ''zOneOfType''
               (JObj (fmupd ''object_type'' (JStr ''b'') (fmupd ''b'' (JNum 1) fmempty)))
               fmempty))
       fmempty"

section \<open>The schema compiler\<close>

text \<open>
  The compiler itself (\<^verbatim>\<open>generator.go\<close>) is not among the sources; only its tests and the
  README are. What follows is modelled from the specification (sections 3 and 4.1) and
  checked against the expectations of the tests wherever they say something.
\<close>

subsection \<open>Descriptors\<close>

text \<open>
  Modelled from the spec: the descriptor kinds of \<^verbatim>\<open>protoreflect.Kind\<close>, which the compiler
  switches on; the declaration itself belongs to the protobuf library.
\<close>

datatype Kind =
    BoolKind | EnumKind | Int32Kind | Sint32Kind | Uint32Kind | Int64Kind | Sint64Kind
  | Uint64Kind | Sfixed32Kind | Fixed32Kind | FloatKind | Sfixed64Kind | Fixed64Kind
  | DoubleKind | StringKind | BytesKind | MessageKind | GroupKind

text \<open>
  Modelled from the spec: the cardinality of a field (singular, repeated or map). The kind
  of a repeated field is the kind of its elements. A map field carries the kind of its
  keys; its \<open>FieldKind\<close> and \<open>MessageFullName\<close> describe its values.
\<close>

datatype Cardinality = Singular | Repeated | MapOf Kind

text \<open>
  Modelled from the spec: a FieldDescriptor (section 3): name, kind, cardinality,
  explicit-optional flag, the explicit "required" annotation, owning oneof, and for a
  message or enum kind the referenced type. The descriptor graph may be cyclic, so a
  message-typed field holds the fully-qualified name of its type, resolved in a pool of
  descriptors, where the Go descriptor holds a pointer. The comment text of a field is
  left out: the spec does not say how it enters the field's schema.
\<close>

record FieldDescriptor =
  FieldName :: string
  FieldKind :: Kind
  FieldCardinality :: Cardinality
  HasOptionalKeyword :: bool
  RequiredAnnotation :: bool
  ContainingOneof :: "string option"
  MessageFullName :: string
  EnumValueNames :: "string list"

text \<open>
  Modelled from the spec: a MessageDescriptor (section 3): the fields in order, the
  fully-qualified type name and the comment text.
\<close>

record MessageDescriptor =
  FullName :: string
  Fields :: "FieldDescriptor list"
  Comment :: string

type_synonym DescriptorPool = "(string, MessageDescriptor) fmap"
type_synonym SchemaNode = json
type_synonym DefinitionsTable = "(string \<times> SchemaNode) list"

text \<open>
  Modelled from the spec: the only failure of this model. In Go a field's message
  descriptor is always there; here a name may be missing from the pool.
\<close>

datatype error = UnresolvedType string

subsection \<open>Per-field type derivation\<close>

text \<open>
  Modelled from the spec: the body of \<^verbatim>\<open>kindToType\<close> is not among the sources. Its rows are
  those of the table of section 4.1. \<^verbatim>\<open>TestKindToType\<close> (\<^verbatim>\<open>generator_test.go\<close>) gives the
  expected result for eight kinds and agrees with the table on seven of them; for
  \<^verbatim>\<open>EnumKind\<close> the table says \<^verbatim>\<open>integer\<close> and the test expects \<^verbatim>\<open>"string"\<close>. The test is code
  of the repository, and it is followed. For the kinds that neither names (sint32,
  fixed32, sfixed32, sfixed64, message, group) the result is the parameter \<open>other\<close>.
\<close>

fun kindToType :: "(Kind \<Rightarrow> string) \<Rightarrow> Kind \<Rightarrow> string" where
  "kindToType other BoolKind = ''boolean''"
| "kindToType other StringKind = ''string''"
| "kindToType other BytesKind = ''string''"
| "kindToType other Int32Kind = ''integer''"
| "kindToType other Uint32Kind = ''integer''"
| "kindToType other Int64Kind = ''string''"
| "kindToType other Uint64Kind = ''string''"
| "kindToType other Sint64Kind = ''string''"
| "kindToType other Fixed64Kind = ''string''"
| "kindToType other FloatKind = ''number''"
| "kindToType other DoubleKind = ''number''"
| "kindToType other EnumKind = ''string''"
| "kindToType other k = other k"

text \<open>Modelled from the spec: a SchemaNode is a mapping with the recognised keys.\<close>

definition obj :: "(string \<times> json) list \<Rightarrow> json" where
  "obj kvs = JObj (fmap_of_list kvs)"

text \<open>
  Modelled from the spec: "a description listing legal names"; the wording is not given,
  the names are joined by commas.
\<close>

fun intercalate :: "string \<Rightarrow> string list \<Rightarrow> string" where
  "intercalate sep [] = []"
| "intercalate sep [x] = x"
| "intercalate sep (x # y # ys) = x @ sep @ intercalate sep (y # ys)"

text \<open>
  Modelled from the spec: the rows of the table for bool, string, bytes, the integer
  kinds, enum, float and double. An enum is \<^verbatim>\<open>{type: integer}\<close> with a description listing
  the legal names, as the table has it: no test calls \<^verbatim>\<open>getType\<close> on an enum field, and the
  expectation of \<^verbatim>\<open>TestKindToType\<close> is about \<^verbatim>\<open>kindToType\<close> alone. Bytes are documented as
  base64. For the other kinds the type is the one \<open>kindToType\<close> gives, which is the
  table's.
\<close>

definition scalarSchema :: "(Kind \<Rightarrow> string) \<Rightarrow> FieldDescriptor \<Rightarrow> SchemaNode" where
  "scalarSchema other fd =
     (case FieldKind fd of
        EnumKind \<Rightarrow>
          obj [(''type'', JStr ''integer''),
               (''description'', JStr (intercalate '', '' (EnumValueNames fd)))]
      | BytesKind \<Rightarrow>
          obj [(''type'', JStr (kindToType other BytesKind)),
               (''description'', JStr ''base64'')]
      | k \<Rightarrow> obj [(''type'', JStr (kindToType other k))])"

text \<open>
  Modelled from the spec: the rows for the well-known types Struct, Value, ListValue and
  Timestamp. The wording of the descriptions is not given; \<^verbatim>\<open>TestGetTypeStandard\<close> expects
  them to contain "dynamic JSON value" and "JSON array". Any other name falls through to
  the handling of ordinary messages.
\<close>

definition wellKnownSchema :: "string \<Rightarrow> SchemaNode option" where
  "wellKnownSchema name =
     (if name = ''google.protobuf.Struct'' then
        Some (obj [(''type'', JStr ''object''), (''additionalProperties'', JBool True)])
      else if name = ''google.protobuf.Value'' then
        Some (obj [(''description'', JStr ''dynamic JSON value (any JSON value)'')])
      else if name = ''google.protobuf.ListValue'' then
        Some (obj [(''type'', JStr ''array''), (''items'', obj []),
                   (''description'', JStr ''JSON array'')])
      else if name = ''google.protobuf.Timestamp'' then
        Some (obj [(''type'', JArr [JStr ''string'', JStr ''null'']),
                   (''format'', JStr ''date-time'')])
      else None)"

text \<open>Modelled from the spec: the row for a message, \<^verbatim>\<open>{$ref: "#/$defs/<TypeName>"}\<close>.\<close>

definition refSchema :: "string \<Rightarrow> SchemaNode" where
  "refSchema name = obj [(''$ref'', JStr (''#/$defs/'' @ name))]"

text \<open>
  Modelled from the spec: the placeholder entry inserted before a message's fields are
  compiled; the spec does not say what it holds.
\<close>

definition placeholder :: SchemaNode where
  "placeholder = obj []"

text \<open>
  Modelled from the spec: the rows for map and repeated fields; a singular field keeps
  the schema of its kind.
\<close>

definition wrapCardinality :: "(Kind \<Rightarrow> string) \<Rightarrow> FieldDescriptor \<Rightarrow> SchemaNode \<Rightarrow> SchemaNode" where
  "wrapCardinality other fd s =
     (case FieldCardinality fd of
        Singular \<Rightarrow> s
      | Repeated \<Rightarrow> obj [(''type'', JStr ''array''), (''items'', s)]
      | MapOf keyKind \<Rightarrow>
          obj [(''type'', JStr ''object''),
               (''additionalProperties'', s),
               (''propertyNames'', obj [(''type'', JStr (kindToType other keyKind))])])"

subsection \<open>The required-field policy\<close>

text \<open>
  Modelled from the spec: the body of \<^verbatim>\<open>isFieldRequiredWithOptionalSupport\<close> is not among
  the sources. Section 3: it is derived from whether explicit-optional-field support is
  enabled, whether the field carries an explicit "required" annotation, and whether the
  field is repeated or a map, "which are never required regardless of other inputs".
  The eight rows of \<^verbatim>\<open>TestOptionalKeywordSupport\<close> fix the rest: an annotated field is
  required in both modes, and a field without annotation is required exactly when the
  support is enabled and the field has no \<^verbatim>\<open>optional\<close> keyword.
\<close>

definition isFieldRequiredWithOptionalSupport :: "bool \<Rightarrow> FieldDescriptor \<Rightarrow> bool" where
  "isFieldRequiredWithOptionalSupport optionalKeywordSupport fd =
     (if FieldCardinality fd \<noteq> Singular then False
      else if RequiredAnnotation fd then True
      else optionalKeywordSupport \<and> \<not> HasOptionalKeyword fd)"

text \<open>Modelled from the spec: the distinct oneof groups of a message, in field order.\<close>

definition oneofGroups :: "MessageDescriptor \<Rightarrow> string list" where
  "oneofGroups md = remdups (List.map_filter ContainingOneof (Fields md))"

text \<open>Modelled from the spec: a oneof group is the property \<^verbatim>\<open><oneofName>OneOfType\<close>.\<close>

definition oneofPropertyName :: "string \<Rightarrow> string" where
  "oneofPropertyName g = g @ ''OneOfType''"

text \<open>
  Modelled from the spec: an "extra property" descriptor (section 6): name, description,
  required flag and an opaque context-propagation key. They are declared by the caller
  and correspond to no protobuf field.
\<close>

record ExtraProperty =
  Name :: string
  Description :: string
  Required :: bool
  ContextKey :: string

text \<open>
  Modelled from the spec: the fields whose names the message schema lists as required,
  "field names satisfying the required-field policy". A field of a oneof group has no
  property of its own.
\<close>

definition requiredFields :: "bool \<Rightarrow> MessageDescriptor \<Rightarrow> FieldDescriptor list" where
  "requiredFields optionalKeywordSupport md =
     filter (\<lambda>fd. ContainingOneof fd = None \<and>
                    isFieldRequiredWithOptionalSupport optionalKeywordSupport fd)
       (Fields md)"

text \<open>
  Modelled from the spec: "\<^verbatim>\<open>required\<close> contains field names satisfying the required-field
  policy, plus any oneof-group property name whose oneof is itself required", and the
  required ones of the extra properties (section 6). The spec does not say when a oneof
  is required, so this is the parameter \<open>oneofRequired\<close>, a predicate on the names of the
  oneof groups. (\<^verbatim>\<open>TestMessageSchemaWithOptionalSupport\<close> expects \<^verbatim>\<open>item_typeOneOfType\<close> among
  the required names with optional-keyword support.)
\<close>

definition requiredNames ::
    "bool \<Rightarrow> (string \<Rightarrow> bool) \<Rightarrow> ExtraProperty list \<Rightarrow> MessageDescriptor \<Rightarrow> string list" where
  "requiredNames optionalKeywordSupport oneofRequired extras md =
     map FieldName (requiredFields optionalKeywordSupport md) @
     map oneofPropertyName (filter oneofRequired (oneofGroups md)) @
     map Name (filter Required extras)"

text \<open>
  The names of the properties of a message schema: the fields, the oneof groups and the
  extra properties.
\<close>

definition propertyNames :: "ExtraProperty list \<Rightarrow> MessageDescriptor \<Rightarrow> string list" where
  "propertyNames extras md =
     map FieldName (Fields md) @ map oneofPropertyName (oneofGroups md) @ map Name extras"

subsection \<open>Message schemas and the definitions table\<close>

text \<open>
  Modelled from the spec: the property of an extra property. The spec gives it a
  description and names no type.
\<close>

definition extraSchema :: "ExtraProperty \<Rightarrow> SchemaNode" where
  "extraSchema e = obj [(''description'', JStr (Description e))]"

text \<open>
  Modelled from the spec: the message schema
  \<^verbatim>\<open>{type: object, properties: {...}, required: [...], additionalProperties: false}\<close>, with the
  descriptor's comment as description, and the extra properties merged into
  \<^verbatim>\<open>properties\<close> and \<^verbatim>\<open>required\<close>.
\<close>

definition assemble ::
    "bool \<Rightarrow> (string \<Rightarrow> bool) \<Rightarrow> ExtraProperty list \<Rightarrow> MessageDescriptor \<Rightarrow>
       (string, json) fmap \<Rightarrow> SchemaNode" where
  "assemble optionalKeywordSupport oneofRequired extras md props =
     obj ([(''type'', JStr ''object''),
           (''properties'', JObj (foldl (\<lambda>ps e. fmupd (Name e) (extraSchema e) ps) props extras)),
           (''required'',
              JArr (map JStr (requiredNames optionalKeywordSupport oneofRequired extras md))),
           (''additionalProperties'', JBool False)] @
          (if Comment md = [] then [] else [(''description'', JStr (Comment md))]))"

text \<open>
  Modelled from the spec: a variant of a oneof group, an object schema with a
  \<^verbatim>\<open>const\<close>-valued \<^verbatim>\<open>object_type\<close> discriminator equal to the field's name, merged with the
  field's own schema; a message-typed variant gets the properties of its message, taken
  from the definitions table, inlined.
\<close>

definition oneofVariant :: "DefinitionsTable \<Rightarrow> FieldDescriptor \<Rightarrow> SchemaNode \<Rightarrow> SchemaNode" where
  "oneofVariant defs fd s =
     (let discriminator = obj [(''const'', JStr (FieldName fd)), (''type'', JStr ''string'')];
          inlined =
            (case (if FieldKind fd = MessageKind then map_of defs (MessageFullName fd) else None) of
               Some (JObj entry) \<Rightarrow>
                 (case fmlookup entry ''properties'' of
                    Some (JObj props) \<Rightarrow> props
                  | _ \<Rightarrow> fmupd (FieldName fd) s fmempty)
             | _ \<Rightarrow> fmupd (FieldName fd) s fmempty)
      in obj [(''type'', JStr ''object''),
              (''properties'', JObj (fmupd ''object_type'' discriminator inlined)),
              (''required'', JArr [JStr ''object_type''])])"

text \<open>
  Modelled from the spec: the property of a oneof group holds \<^verbatim>\<open>{oneOf: [...]}\<close>, one variant
  per field of the group.
\<close>

definition addVariant :: "string \<Rightarrow> SchemaNode \<Rightarrow> (string, json) fmap \<Rightarrow> (string, json) fmap" where
  "addVariant g variant props =
     (case fmlookup props (oneofPropertyName g) of
        Some (JObj oneofSchema) \<Rightarrow>
          (case fmlookup oneofSchema ''oneOf'' of
             Some (JArr vs) \<Rightarrow> fmupd (oneofPropertyName g) (obj [(''oneOf'', JArr (vs @ [variant]))]) props
           | _ \<Rightarrow> fmupd (oneofPropertyName g) (obj [(''oneOf'', JArr [variant])]) props)
      | _ \<Rightarrow> fmupd (oneofPropertyName g) (obj [(''oneOf'', JArr [variant])]) props)"

text \<open>
  Modelled from the spec: \<^verbatim>\<open>getType\<close> and the loop of \<^verbatim>\<open>messageSchemaFromDescriptor\<close> over the
  fields; their bodies are not among the sources. The DefinitionsTable is an association
  list, so that an entry inserted twice would show. For a message-typed field the
  referenced type is looked for in the table; when it is there the field is a \<^verbatim>\<open>$ref\<close>
  and nothing is compiled; when it is not, a placeholder is inserted before the fields of
  the type are compiled, and the finished schema replaces it. Nothing bounds the depth
  in the spec ("without a depth counter"): the fuel of the model counts the message types
  entered, and running out of it is the result \<open>None\<close>.
\<close>

fun getType ::
    "nat \<Rightarrow> bool \<Rightarrow> (string \<Rightarrow> bool) \<Rightarrow> (Kind \<Rightarrow> string) \<Rightarrow> DescriptorPool \<Rightarrow>
       DefinitionsTable \<Rightarrow> FieldDescriptor \<Rightarrow> (error + SchemaNode \<times> DefinitionsTable) option"
  and properties ::
    "nat \<Rightarrow> bool \<Rightarrow> (string \<Rightarrow> bool) \<Rightarrow> (Kind \<Rightarrow> string) \<Rightarrow> DescriptorPool \<Rightarrow>
       DefinitionsTable \<Rightarrow> FieldDescriptor list \<Rightarrow> (string, json) fmap \<Rightarrow>
       (error + (string, json) fmap \<times> DefinitionsTable) option"
where
  "getType fuel oks req other pool defs fd =
     (if FieldKind fd = MessageKind then
        (case wellKnownSchema (MessageFullName fd) of
           Some s \<Rightarrow> Some (Inr (wrapCardinality other fd s, defs))
         | None \<Rightarrow>
             if MessageFullName fd \<in> fst ` set defs then
               Some (Inr (wrapCardinality other fd (refSchema (MessageFullName fd)), defs))
             else
               (case fuel of
                  0 \<Rightarrow> None
                | Suc k \<Rightarrow>
                    (case fmlookup pool (MessageFullName fd) of
                       None \<Rightarrow> Some (Inl (UnresolvedType (MessageFullName fd)))
                     | Some md \<Rightarrow>
                         (case properties k oks req other pool
                                 ((MessageFullName fd, placeholder) # defs) (Fields md) fmempty of
                            None \<Rightarrow> None
                          | Some (Inl e) \<Rightarrow> Some (Inl e)
                          | Some (Inr (props, defs')) \<Rightarrow>
                              Some (Inr (wrapCardinality other fd (refSchema (MessageFullName fd)),
                                         AList.update (MessageFullName fd)
                                           (assemble oks req [] md props) defs'))))))
      else Some (Inr (wrapCardinality other fd (scalarSchema other fd), defs)))"
| "properties fuel oks req other pool defs [] props = Some (Inr (props, defs))"
| "properties fuel oks req other pool defs (fd # fds) props =
     (case getType fuel oks req other pool defs fd of
        None \<Rightarrow> None
      | Some (Inl e) \<Rightarrow> Some (Inl e)
      | Some (Inr (s, defs')) \<Rightarrow>
          properties fuel oks req other pool defs' fds
            (case ContainingOneof fd of
               None \<Rightarrow> fmupd (FieldName fd) s props
             | Some g \<Rightarrow> addVariant g (oneofVariant defs' fd s) props))"

declare getType.simps [simp del]



subsection \<open>The reference graph of a pool of descriptors\<close>








subsection \<open>Example descriptors\<close>

definition messageField :: "string \<Rightarrow> Cardinality \<Rightarrow> string \<Rightarrow> string option \<Rightarrow> FieldDescriptor" where
  "messageField name cardinality typeName oneof =
     \<lparr>FieldName = name, FieldKind = MessageKind, FieldCardinality = cardinality,
      HasOptionalKeyword = False, RequiredAnnotation = False, ContainingOneof = oneof,
      MessageFullName = typeName, EnumValueNames = []\<rparr>"

definition scalarField :: "string \<Rightarrow> Kind \<Rightarrow> Cardinality \<Rightarrow> string option \<Rightarrow> FieldDescriptor" where
  "scalarField name kind cardinality oneof =
     \<lparr>FieldName = name, FieldKind = kind, FieldCardinality = cardinality,
      HasOptionalKeyword = False, RequiredAnnotation = False, ContainingOneof = oneof,
      MessageFullName = [], EnumValueNames = []\<rparr>"




text \<open>
  The message used by \<^verbatim>\<open>TestOptionalKeywordSupport\<close> and
  \<^verbatim>\<open>TestMessageSchemaWithOptionalSupport\<close>, as far as the tests describe it: an annotated
  \<^verbatim>\<open>name\<close>, an optional \<^verbatim>\<open>description\<close>, a bytes field \<^verbatim>\<open>thumbnail\<close>, a repeated \<^verbatim>\<open>tags\<close>, a map
  \<^verbatim>\<open>labels\<close> and the oneof \<^verbatim>\<open>item_type\<close>.
\<close>

definition CreateItemRequest :: MessageDescriptor where
  "CreateItemRequest =
     \<lparr>FullName = ''CreateItemRequest'',
      Fields =
        [(scalarField ''name'' StringKind Singular None)\<lparr>RequiredAnnotation := True\<rparr>,
         (scalarField ''description'' StringKind Singular None)\<lparr>HasOptionalKeyword := True\<rparr>,
         scalarField ''thumbnail'' BytesKind Singular None,
         scalarField ''tags'' StringKind Repeated None,
         scalarField ''labels'' StringKind (MapOf StringKind) None,
         messageField ''product'' Singular ''Product'' (Some ''item_type''),
         messageField ''service'' Singular ''Service'' (Some ''item_type'')],
      Comment = []\<rparr>"




text \<open>An enum field with two values, singular and repeated.\<close>

definition status_field :: FieldDescriptor where
  "status_field =
     (scalarField ''status'' EnumKind Singular None)\<lparr>EnumValueNames := [''ACTIVE'', ''INACTIVE'']\<rparr>"

definition statuses_field :: FieldDescriptor where
  "statuses_field =
     (scalarField ''statuses'' EnumKind Repeated None)\<lparr>EnumValueNames := [''ACTIVE'', ''INACTIVE'']\<rparr>"

section \<open>Properties of the union flattener\<close>

subsection \<open>What one step does\<close>

lemma oneof_step_variant:
  "oneof_step v key =
     (case oneof_variant v key of None \<Rightarrow> v | Some (t, x) \<Rightarrow> fmdrop key (fmupd t x v))"
  by (simp add: oneof_step_def oneof_variant_def split: option.splits json.splits)

lemma oneof_variant_cong:
  "fmlookup v key = fmlookup v' key \<Longrightarrow> oneof_variant v key = oneof_variant v' key"
  by (simp add: oneof_variant_def)

lemma oneof_variant_SomeD:
  "oneof_variant v key = Some (t, x) \<Longrightarrow> HasSuffix key ''OneOfType'' \<and> key \<in> fmdom' v"
  by (auto simp: oneof_variant_def fmlookup_dom'_iff split: if_splits option.splits json.splits)

lemma oneof_variant_no_suffix:
  "\<not> HasSuffix key ''OneOfType'' \<Longrightarrow> oneof_variant v key = None"
  by (simp add: oneof_variant_def)

lemma oneof_variant_absent:
  "fmlookup v key = None \<Longrightarrow> oneof_variant v key = None"
  by (simp add: oneof_variant_def)

lemma oneof_variant_malformed:
  "fmlookup v key = Some w \<Longrightarrow> malformed_wrapper w \<Longrightarrow> oneof_variant v key = None"
  by (auto simp: oneof_variant_def malformed_wrapper_def split: option.splits json.splits)

lemma oneof_variant_message:
  "HasSuffix key ''OneOfType'' \<Longrightarrow> fmlookup v key = Some (JObj w) \<Longrightarrow>
   fmlookup w ''object_type'' = Some (JStr t) \<Longrightarrow> fmlookup w t = Some p \<Longrightarrow>
   oneof_variant v key = Some (t, p)"
  by (simp add: oneof_variant_def)

lemma oneof_variant_primitive:
  "HasSuffix key ''OneOfType'' \<Longrightarrow> fmlookup v key = Some (JObj w) \<Longrightarrow>
   fmlookup w ''object_type'' = Some (JStr t) \<Longrightarrow> fmlookup w t = None \<Longrightarrow>
   oneof_variant v key = Some (t, JObj (fmdrop ''object_type'' w))"
  by (simp add: oneof_variant_def fmfilter_alt_defs)

lemma oneof_loop_idle:
  "(\<And>k. oneof_variant v k = None) \<Longrightarrow> foldl oneof_step v ks = v"
  by (induction ks) (simp_all add: oneof_step_variant)

lemma settled_fixed: "everywhere no_wrapper w \<Longrightarrow> transformOneOfFieldsRecursive visit w = w"
proof (induction visit w rule: transformOneOfFieldsRecursive.induct)
  case (1 visit v)
  have none: "oneof_variant v k = None" for k
  proof (cases "k \<in> fmdom' v")
    case True
    with "1.prems" show ?thesis by (simp add: no_wrapper_def)
  next
    case False
    then show ?thesis by (simp add: oneof_variant_absent fmdom'_notD)
  qed
  have idle: "foldl oneof_step v (visit v) = v"
    by (rule oneof_loop_idle) (rule none)
  have "fmmap (transformOneOfFieldsRecursive visit) v = v"
  proof (rule fmap_ext)
    fix k
    show "fmlookup (fmmap (transformOneOfFieldsRecursive visit) v) k = fmlookup v k"
    proof (cases "fmlookup v k")
      case None
      then show ?thesis by simp
    next
      case (Some z)
      then have zr: "z \<in> fmran' v" by (rule fmran'I)
      with "1.prems" have "everywhere no_wrapper z" by simp
      with "1.IH"[of z] zr idle have "transformOneOfFieldsRecursive visit z = z" by simp
      with Some show ?thesis by simp
    qed
  qed
  with idle show ?case by simp
next
  case (2 visit v)
  then show ?case by (simp add: map_idI)
qed simp_all

subsection \<open>Maps with plain discriminators\<close>

lemma plain_discriminators_iff:
  "plain_discriminators v \<longleftrightarrow>
     (\<forall>k t x. oneof_variant v k = Some (t, x) \<longrightarrow> \<not> HasSuffix t ''OneOfType'')"
proof
  assume p: "plain_discriminators v"
  show "\<forall>k t x. oneof_variant v k = Some (t, x) \<longrightarrow> \<not> HasSuffix t ''OneOfType''"
  proof (intro allI impI)
    fix k t x
    assume kv: "oneof_variant v k = Some (t, x)"
    then have "k \<in> fmdom' v" by (simp add: oneof_variant_SomeD)
    with p kv show "\<not> HasSuffix t ''OneOfType''"
      unfolding plain_discriminators_def by force
  qed
next
  assume "\<forall>k t x. oneof_variant v k = Some (t, x) \<longrightarrow> \<not> HasSuffix t ''OneOfType''"
  then show "plain_discriminators v"
    unfolding plain_discriminators_def by (auto split: option.splits)
qed

lemma plain_discriminatorsD:
  "plain_discriminators v \<Longrightarrow> oneof_variant v k = Some (t, x) \<Longrightarrow> \<not> HasSuffix t ''OneOfType''"
  unfolding plain_discriminators_iff by blast

lemma only_variant_named_iff:
  "only_variant_named t key v \<longleftrightarrow> (\<forall>k x. oneof_variant v k = Some (t, x) \<longrightarrow> k = key)"
proof
  assume o: "only_variant_named t key v"
  show "\<forall>k x. oneof_variant v k = Some (t, x) \<longrightarrow> k = key"
  proof (intro allI impI, rule ccontr)
    fix k x
    assume kv: "oneof_variant v k = Some (t, x)" and "k \<noteq> key"
    moreover from kv have "k \<in> fmdom' v" by (simp add: oneof_variant_SomeD)
    ultimately have "map_option fst (oneof_variant v k) \<noteq> Some t"
      using o unfolding only_variant_named_def by blast
    with kv show False by simp
  qed
next
  assume "\<forall>k x. oneof_variant v k = Some (t, x) \<longrightarrow> k = key"
  then show "only_variant_named t key v"
    unfolding only_variant_named_def by auto
qed

text \<open>
  After a step at \<open>k\<close> the rewrite can no longer fire at \<open>k\<close>, and what it decides at the
  other keys is as before.
\<close>

lemma oneof_variant_step:
  assumes "plain_discriminators v"
  shows "oneof_variant (oneof_step v k) j = (if j = k then None else oneof_variant v j)"
proof (cases "oneof_variant v k")
  case None
  then show ?thesis by (simp add: oneof_step_variant)
next
  case (Some p)
  obtain t x where p: "p = (t, x)" by (cases p)
  from assms Some p have nt: "\<not> HasSuffix t ''OneOfType''" by (simp add: plain_discriminatorsD)
  from Some p have hk: "HasSuffix k ''OneOfType''" by (simp add: oneof_variant_SomeD)
  have step: "oneof_step v k = fmdrop k (fmupd t x v)"
    using Some p by (simp add: oneof_step_variant)
  show ?thesis
  proof (cases "HasSuffix j ''OneOfType''")
    case False
    with hk have "j \<noteq> k" by auto
    with False show ?thesis by (simp add: oneof_variant_no_suffix)
  next
    case True
    with nt have jt: "j \<noteq> t" by auto
    show ?thesis
    proof (cases "j = k")
      case True
      then have "fmlookup (oneof_step v k) j = None" by (simp add: step)
      with True show ?thesis by (simp add: oneof_variant_def)
    next
      case False
      with jt have "fmlookup (oneof_step v k) j = fmlookup v j" by (simp add: step)
      from oneof_variant_cong[OF this] False show ?thesis by simp
    qed
  qed
qed

lemma plain_discriminators_step:
  assumes "plain_discriminators v"
  shows "plain_discriminators (oneof_step v k)"
  using assms unfolding plain_discriminators_iff oneof_variant_step[OF assms]
  by (metis option.distinct(1))

text \<open>
  The first loop over a map with plain discriminators, after any sequence \<open>ks\<close> of visits:
  the variant of a visited wrapper is under its discriminator when no other visited
  wrapper carries the same one; every visited wrapper is gone; and an entry that is
  neither a visited wrapper nor under the discriminator of one is as it was.
\<close>

lemma oneof_loop_plain:
  assumes "plain_discriminators v"
  shows "(\<forall>k t x. k \<in> set ks \<and> oneof_variant v k = Some (t, x) \<and>
              (\<forall>k' x'. k' \<in> set ks \<and> oneof_variant v k' = Some (t, x') \<longrightarrow> k' = k) \<longrightarrow>
            fmlookup (foldl oneof_step v ks) t = Some x) \<and>
         (\<forall>k. k \<in> set ks \<and> oneof_variant v k \<noteq> None \<longrightarrow>
            fmlookup (foldl oneof_step v ks) k = None) \<and>
         (\<forall>j. (j \<notin> set ks \<or> oneof_variant v j = None) \<and>
              (\<forall>k x. k \<in> set ks \<longrightarrow> oneof_variant v k \<noteq> Some (j, x)) \<longrightarrow>
            fmlookup (foldl oneof_step v ks) j = fmlookup v j)"
  using assms
proof (induction ks arbitrary: v)
  case Nil
  then show ?case by simp
next
  case (Cons k ks)
  let ?v' = "oneof_step v k"
  let ?r = "foldl oneof_step ?v' ks"
  note u = \<open>plain_discriminators v\<close>
  have u': "plain_discriminators ?v'" by (rule plain_discriminators_step[OF u])
  have var': "oneof_variant ?v' j = (if j = k then None else oneof_variant v j)" for j
    by (rule oneof_variant_step[OF u])
  from Cons.IH[OF u']
  have A: "\<And>k0 t x. k0 \<in> set ks \<Longrightarrow> oneof_variant ?v' k0 = Some (t, x) \<Longrightarrow>
              (\<And>k' x'. k' \<in> set ks \<Longrightarrow> oneof_variant ?v' k' = Some (t, x') \<Longrightarrow> k' = k0) \<Longrightarrow>
              fmlookup ?r t = Some x"
    and B: "\<And>k0. k0 \<in> set ks \<Longrightarrow> oneof_variant ?v' k0 \<noteq> None \<Longrightarrow> fmlookup ?r k0 = None"
    and C: "\<And>j. j \<notin> set ks \<or> oneof_variant ?v' j = None \<Longrightarrow>
              (\<And>k0 x. k0 \<in> set ks \<Longrightarrow> oneof_variant ?v' k0 \<noteq> Some (j, x)) \<Longrightarrow>
              fmlookup ?r j = fmlookup ?v' j"
    by blast+
  have gone: "fmlookup ?r k = None" if kv: "oneof_variant v k = Some (t, x)" for t x
  proof -
    have hk: "HasSuffix k ''OneOfType''" using kv by (simp add: oneof_variant_SomeD)
    have step: "?v' = fmdrop k (fmupd t x v)" using kv by (simp add: oneof_step_variant)
    have "fmlookup ?r k = fmlookup ?v' k"
    proof (rule C)
      show "k \<notin> set ks \<or> oneof_variant ?v' k = None" by (simp add: var')
    next
      fix k0 x0 assume "k0 \<in> set ks"
      show "oneof_variant ?v' k0 \<noteq> Some (k, x0)"
        using plain_discriminatorsD[OF u, of k0 k x0] hk by (auto simp: var')
    qed
    then show ?thesis by (simp add: step)
  qed
  have stored: "fmlookup ?r t = Some x"
    if kv: "oneof_variant v k = Some (t, x)"
      and only: "\<And>k' x'. k' \<in> set ks \<Longrightarrow> oneof_variant v k' = Some (t, x') \<Longrightarrow> k' = k" for t x
  proof -
    have hk: "HasSuffix k ''OneOfType''" using kv by (simp add: oneof_variant_SomeD)
    have nt: "\<not> HasSuffix t ''OneOfType''" by (rule plain_discriminatorsD[OF u kv])
    from hk nt have tk: "t \<noteq> k" by auto
    have step: "?v' = fmdrop k (fmupd t x v)" using kv by (simp add: oneof_step_variant)
    have "fmlookup ?r t = fmlookup ?v' t"
    proof (rule C)
      show "t \<notin> set ks \<or> oneof_variant ?v' t = None"
        using nt by (simp add: var' oneof_variant_no_suffix)
    next
      fix k0 x0 assume "k0 \<in> set ks"
      then show "oneof_variant ?v' k0 \<noteq> Some (t, x0)"
        using only[of k0 x0] by (auto simp: var')
    qed
    then show ?thesis using tk by (simp add: step)
  qed
  have a: "fmlookup ?r t = Some x"
    if mem: "k0 \<in> set (k # ks)" and kv: "oneof_variant v k0 = Some (t, x)"
      and only: "\<And>k' x'. k' \<in> set (k # ks) \<Longrightarrow> oneof_variant v k' = Some (t, x') \<Longrightarrow> k' = k0"
    for k0 t x
  proof (cases "k0 = k")
    case True
    show ?thesis
    proof (rule stored)
      show "oneof_variant v k = Some (t, x)" using kv True by simp
    next
      fix k' x' assume "k' \<in> set ks" "oneof_variant v k' = Some (t, x')"
      then show "k' = k" using only[of k' x'] True by simp
    qed
  next
    case False
    show ?thesis
    proof (rule A[of k0])
      show "k0 \<in> set ks" using mem False by simp
    next
      show "oneof_variant ?v' k0 = Some (t, x)" using kv False by (simp add: var')
    next
      fix k' x' assume "k' \<in> set ks" "oneof_variant ?v' k' = Some (t, x')"
      then show "k' = k0" using only[of k' x'] by (simp add: var' split: if_splits)
    qed
  qed
  have b: "fmlookup ?r k0 = None"
    if "k0 \<in> set (k # ks)" "oneof_variant v k0 \<noteq> None" for k0
  proof (cases "k0 = k")
    case True
    with that gone show ?thesis by auto
  next
    case False
    with that show ?thesis by (intro B[of k0]) (simp_all add: var')
  qed
  have c: "fmlookup ?r j = fmlookup v j"
    if h1: "j \<notin> set (k # ks) \<or> oneof_variant v j = None"
      and h2: "\<And>k0 x. k0 \<in> set (k # ks) \<Longrightarrow> oneof_variant v k0 \<noteq> Some (j, x)" for j
  proof -
    have "fmlookup ?r j = fmlookup ?v' j"
    proof (rule C)
      show "j \<notin> set ks \<or> oneof_variant ?v' j = None" using h1 by (auto simp: var')
    next
      fix k0 x0 assume "k0 \<in> set ks"
      then show "oneof_variant ?v' k0 \<noteq> Some (j, x0)" using h2[of k0 x0] by (simp add: var')
    qed
    also have "fmlookup ?v' j = fmlookup v j"
    proof (cases "oneof_variant v k")
      case None
      then show ?thesis by (simp add: oneof_step_variant)
    next
      case (Some p)
      obtain t x where p: "p = (t, x)" by (cases p)
      from h2[of k x] Some p have "j \<noteq> t" by auto
      moreover from h1 Some have "j \<noteq> k" by auto
      ultimately show ?thesis using Some p by (simp add: oneof_step_variant)
    qed
    finally show ?thesis .
  qed
  show ?case
  proof (intro conjI allI impI)
    fix k0 t x
    assume h: "k0 \<in> set (k # ks) \<and> oneof_variant v k0 = Some (t, x) \<and>
       (\<forall>k' x'. k' \<in> set (k # ks) \<and> oneof_variant v k' = Some (t, x') \<longrightarrow> k' = k0)"
    from h have h1: "k0 \<in> set (k # ks)" and h2: "oneof_variant v k0 = Some (t, x)"
      and h3: "\<And>k' x'. k' \<in> set (k # ks) \<Longrightarrow> oneof_variant v k' = Some (t, x') \<Longrightarrow> k' = k0"
      by blast+
    have "fmlookup ?r t = Some x"
    proof (rule a[OF h1 h2])
      fix k' x' assume "k' \<in> set (k # ks)" "oneof_variant v k' = Some (t, x')"
      then show "k' = k0" by (rule h3)
    qed
    then show "fmlookup (foldl oneof_step v (k # ks)) t = Some x" by simp
  next
    fix k0
    assume h: "k0 \<in> set (k # ks) \<and> oneof_variant v k0 \<noteq> None"
    from h have h1: "k0 \<in> set (k # ks)" and h2: "oneof_variant v k0 \<noteq> None"
      by blast+
    from b[OF h1 h2] have "fmlookup ?r k0 = None" .
    then show "fmlookup (foldl oneof_step v (k # ks)) k0 = None" by simp
  next
    fix j
    assume h: "(j \<notin> set (k # ks) \<or> oneof_variant v j = None) \<and>
       (\<forall>k0 x. k0 \<in> set (k # ks) \<longrightarrow> oneof_variant v k0 \<noteq> Some (j, x))"
    from h have h1: "j \<notin> set (k # ks) \<or> oneof_variant v j = None"
      and h2: "\<And>k0 x. k0 \<in> set (k # ks) \<Longrightarrow> oneof_variant v k0 \<noteq> Some (j, x)"
      by auto
    have "fmlookup ?r j = fmlookup v j"
    proof (rule c[OF h1])
      fix k0 x0 assume "k0 \<in> set (k # ks)"
      then show "oneof_variant v k0 \<noteq> Some (j, x0)" by (rule h2)
    qed
    then show "fmlookup (foldl oneof_step v (k # ks)) j = fmlookup v j" by simp
  qed
qed

lemma flatten_object_plain:
  assumes "plain_discriminators v"
  shows "\<exists>r. transformOneOfFieldsRecursive visit (JObj v) = JObj r \<and>
     (\<forall>k t x. k \<in> set (visit v) \<and> oneof_variant v k = Some (t, x) \<and>
          (\<forall>k' x'. k' \<in> set (visit v) \<and> oneof_variant v k' = Some (t, x') \<longrightarrow> k' = k) \<longrightarrow>
        fmlookup r t = Some (transformOneOfFieldsRecursive visit x)) \<and>
     (\<forall>k. k \<in> set (visit v) \<and> oneof_variant v k \<noteq> None \<longrightarrow> fmlookup r k = None) \<and>
     (\<forall>j. (j \<notin> set (visit v) \<or> oneof_variant v j = None) \<and>
          (\<forall>k x. k \<in> set (visit v) \<longrightarrow> oneof_variant v k \<noteq> Some (j, x)) \<longrightarrow>
        fmlookup r j = map_option (transformOneOfFieldsRecursive visit) (fmlookup v j))"
  using oneof_loop_plain[OF assms, of "visit v"] by simp

subsection \<open>Maps whose wrappers do not interfere\<close>

lemma unambiguous_iff:
  "unambiguous v \<longleftrightarrow>
     (\<forall>k t x. oneof_variant v k = Some (t, x) \<longrightarrow>
        \<not> HasSuffix t ''OneOfType'' \<and>
        (\<forall>k' x'. oneof_variant v k' = Some (t, x') \<longrightarrow> k' = k))"
proof
  assume u: "unambiguous v"
  show "\<forall>k t x. oneof_variant v k = Some (t, x) \<longrightarrow>
        \<not> HasSuffix t ''OneOfType'' \<and>
        (\<forall>k' x'. oneof_variant v k' = Some (t, x') \<longrightarrow> k' = k)"
  proof (intro allI impI)
    fix k t x
    assume kv: "oneof_variant v k = Some (t, x)"
    then have kd: "k \<in> fmdom' v" by (simp add: oneof_variant_SomeD)
    from u kd kv have a: "\<not> HasSuffix t ''OneOfType''"
      and b: "\<forall>k' \<in> fmdom' v. k' \<noteq> k \<longrightarrow> map_option fst (oneof_variant v k') \<noteq> Some t"
      unfolding unambiguous_def by force+
    have "k' = k" if "oneof_variant v k' = Some (t, x')" for k' x'
    proof (rule ccontr)
      assume "k' \<noteq> k"
      moreover from that have "k' \<in> fmdom' v" by (simp add: oneof_variant_SomeD)
      ultimately have "map_option fst (oneof_variant v k') \<noteq> Some t" using b by blast
      with that show False by simp
    qed
    with a show "\<not> HasSuffix t ''OneOfType'' \<and>
        (\<forall>k' x'. oneof_variant v k' = Some (t, x') \<longrightarrow> k' = k)" by blast
  qed
next
  assume r: "\<forall>k t x. oneof_variant v k = Some (t, x) \<longrightarrow>
        \<not> HasSuffix t ''OneOfType'' \<and>
        (\<forall>k' x'. oneof_variant v k' = Some (t, x') \<longrightarrow> k' = k)"
  show "unambiguous v"
    unfolding unambiguous_def
  proof (intro ballI)
    fix k assume "k \<in> fmdom' v"
    show "case oneof_variant v k of None \<Rightarrow> True
       | Some (t, x) \<Rightarrow> \<not> HasSuffix t ''OneOfType'' \<and>
          (\<forall>k'\<in>fmdom' v. k' \<noteq> k \<longrightarrow> map_option fst (oneof_variant v k') \<noteq> Some t)"
    proof (cases "oneof_variant v k")
      case None
      then show ?thesis by simp
    next
      case (Some p)
      obtain t x where p: "p = (t, x)" by (cases p)
      from r Some p have a: "\<not> HasSuffix t ''OneOfType''"
        and b: "\<And>k' x'. oneof_variant v k' = Some (t, x') \<Longrightarrow> k' = k" by blast+
      have "map_option fst (oneof_variant v k') \<noteq> Some t" if "k' \<noteq> k" for k'
      proof
        assume "map_option fst (oneof_variant v k') = Some t"
        then obtain x' where "oneof_variant v k' = Some (t, x')" by auto
        from b[OF this] that show False by simp
      qed
      with a Some p show ?thesis by simp
    qed
  qed
qed

lemma unambiguousD1:
  "unambiguous v \<Longrightarrow> oneof_variant v k = Some (t, x) \<Longrightarrow> \<not> HasSuffix t ''OneOfType''"
  unfolding unambiguous_iff by blast

lemma unambiguousD2:
  "unambiguous v \<Longrightarrow> oneof_variant v k = Some (t, x) \<Longrightarrow> oneof_variant v k' = Some (t, x')
     \<Longrightarrow> k' = k"
  unfolding unambiguous_iff by blast

lemma unambiguous_plain: "unambiguous v \<Longrightarrow> plain_discriminators v"
  unfolding unambiguous_iff plain_discriminators_iff by blast

lemma unambiguous_step:
  assumes "unambiguous v"
  shows "unambiguous (oneof_step v k)"
  using assms unfolding unambiguous_iff oneof_variant_step[OF unambiguous_plain[OF assms]]
  by (metis option.distinct(1))

text \<open>
  The first loop over a map whose wrappers do not interfere, after any sequence \<open>ks\<close> of
  visits: every wrapper visited has been replaced by its variant, and nothing else has
  changed.
\<close>

lemma oneof_loop_lookup:
  assumes "unambiguous v"
  shows "(\<forall>k t x. k \<in> set ks \<and> oneof_variant v k = Some (t, x) \<longrightarrow>
            fmlookup (foldl oneof_step v ks) t = Some x) \<and>
         (\<forall>k. k \<in> set ks \<and> oneof_variant v k \<noteq> None \<longrightarrow>
            fmlookup (foldl oneof_step v ks) k = None) \<and>
         (\<forall>j. (j \<notin> set ks \<or> oneof_variant v j = None) \<and>
              (\<forall>k x. k \<in> set ks \<longrightarrow> oneof_variant v k \<noteq> Some (j, x)) \<longrightarrow>
            fmlookup (foldl oneof_step v ks) j = fmlookup v j)"
proof -
  note L = oneof_loop_plain[OF unambiguous_plain[OF assms], of ks]
  have "fmlookup (foldl oneof_step v ks) t = Some x"
    if "k \<in> set ks" "oneof_variant v k = Some (t, x)" for k t x
  proof -
    have "\<forall>k' x'. k' \<in> set ks \<and> oneof_variant v k' = Some (t, x') \<longrightarrow> k' = k"
      using unambiguousD2[OF assms that(2)] by blast
    with that L show ?thesis by blast
  qed
  with L show ?thesis by blast
qed

lemma flatten_object_lookup:
  assumes "unambiguous v"
  shows "\<exists>r. transformOneOfFieldsRecursive visit (JObj v) = JObj r \<and>
     (\<forall>k t x. k \<in> set (visit v) \<and> oneof_variant v k = Some (t, x) \<longrightarrow>
        fmlookup r t = Some (transformOneOfFieldsRecursive visit x)) \<and>
     (\<forall>k. k \<in> set (visit v) \<and> oneof_variant v k \<noteq> None \<longrightarrow> fmlookup r k = None) \<and>
     (\<forall>j. (j \<notin> set (visit v) \<or> oneof_variant v j = None) \<and>
          (\<forall>k x. k \<in> set (visit v) \<longrightarrow> oneof_variant v k \<noteq> Some (j, x)) \<longrightarrow>
        fmlookup r j = map_option (transformOneOfFieldsRecursive visit) (fmlookup v j))"
  using oneof_loop_lookup[OF assms, of "visit v"] by simp

lemma oneof_variant_NoneD:
  "oneof_variant v key = None \<Longrightarrow> HasSuffix key ''OneOfType'' \<Longrightarrow> fmlookup v key = Some w \<Longrightarrow>
   malformed_wrapper w"
  by (auto simp: oneof_variant_def malformed_wrapper_def split: option.splits json.splits)

subsection \<open>Independence of the visiting order\<close>

lemma oneof_variant_fmfilter:
  "oneof_variant (fmfilter P u) k = (if P k then oneof_variant u k else None)"
  by (simp add: oneof_variant_def)

lemma unambiguous_fmfilter: "unambiguous u \<Longrightarrow> unambiguous (fmfilter P u)"
  unfolding unambiguous_iff oneof_variant_fmfilter
  by (metis option.distinct(1))

lemma no_variant_named_fmfilter: "no_variant_named t u \<Longrightarrow> no_variant_named t (fmfilter P u)"
  by (auto simp: no_variant_named_def oneof_variant_fmfilter)

lemma everywhere_fmfilter:
  assumes "\<And>u. Q u \<Longrightarrow> Q (fmfilter P u)" and "everywhere Q (JObj u)"
  shows "everywhere Q (JObj (fmfilter P u))"
  using assms by (auto simp: fmlookup_ran'_iff split: if_splits)

text \<open>Every value in the map after a step is a value, or part of a value, of the map before.\<close>

lemma everywhere_step:
  assumes Q: "\<And>u. Q u \<Longrightarrow> Q (fmfilter (\<lambda>k. k \<noteq> ''object_type'') u)"
    and "\<forall>z \<in> fmran' v. everywhere Q z"
  shows "\<forall>z \<in> fmran' (oneof_step v key). everywhere Q z"
proof
  fix z
  assume "z \<in> fmran' (oneof_step v key)"
  then obtain k where k: "fmlookup (oneof_step v key) k = Some z"
    by (auto simp: fmlookup_ran'_iff)
  have old: "everywhere Q y" if "fmlookup v k' = Some y" for k' y
    using assms(2) that by (auto simp: fmlookup_ran'_iff)
  show "everywhere Q z"
  proof (cases "fmlookup v k = Some z")
    case True
    then show ?thesis by (rule old)
  next
    case False
    with k obtain u where u: "fmlookup v key = Some (JObj u)"
      and z: "(\<exists>kk. fmlookup u kk = Some z) \<or>
              z = JObj (fmfilter (\<lambda>k. k \<noteq> ''object_type'') u)"
      by (auto simp: oneof_step_def split: option.splits if_splits json.splits)
    from old[OF u] have eu: "everywhere Q (JObj u)" .
    from z show ?thesis
    proof
      assume "\<exists>kk. fmlookup u kk = Some z"
      with eu show ?thesis by (auto simp: fmlookup_ran'_iff)
    next
      assume "z = JObj (fmfilter (\<lambda>k. k \<noteq> ''object_type'') u)"
      with everywhere_fmfilter[of Q, OF Q eu] show ?thesis by simp
    qed
  qed
qed

lemma everywhere_loop:
  assumes Q: "\<And>u. Q u \<Longrightarrow> Q (fmfilter (\<lambda>k. k \<noteq> ''object_type'') u)"
  shows "\<forall>z \<in> fmran' v. everywhere Q z \<Longrightarrow>
         \<forall>z \<in> fmran' (foldl oneof_step v ks). everywhere Q z"
proof (induction ks arbitrary: v)
  case Nil
  then show ?case by simp
next
  case (Cons k ks)
  from Cons.IH[OF everywhere_step[of Q, OF Q Cons.prems]] show ?case by simp
qed

lemma oneof_loop_order:
  assumes u: "unambiguous v" and c1: "fmdom' v \<subseteq> set ks1" and c2: "fmdom' v \<subseteq> set ks2"
  shows "foldl oneof_step v ks1 = foldl oneof_step v ks2"
proof (rule fmap_ext)
  fix j
  note L1 = oneof_loop_lookup[OF u, of ks1]
  note L2 = oneof_loop_lookup[OF u, of ks2]
  have dom: "k \<in> set ks1 \<and> k \<in> set ks2" if "oneof_variant v k \<noteq> None" for k
    using that c1 c2 oneof_variant_SomeD[of v k] by (cases "oneof_variant v k") auto
  show "fmlookup (foldl oneof_step v ks1) j = fmlookup (foldl oneof_step v ks2) j"
  proof (cases "\<exists>k x. oneof_variant v k = Some (j, x)")
    case True
    then obtain k x where kx: "oneof_variant v k = Some (j, x)" by blast
    with dom[of k] have "k \<in> set ks1" "k \<in> set ks2" by simp_all
    with kx L1 L2 show ?thesis by metis
  next
    case False
    note nf = this
    show ?thesis
    proof (cases "oneof_variant v j")
      case None
      with nf L1 L2 show ?thesis by metis
    next
      case (Some p)
      with dom[of j] have "j \<in> set ks1" "j \<in> set ks2" by simp_all
      with Some L1 L2 show ?thesis by (metis option.distinct(1))
    qed
  qed
qed

subsection \<open>Values on which a second pass changes nothing\<close>

lemma plain_discriminators_fmfilter:
  "plain_discriminators u \<Longrightarrow> plain_discriminators (fmfilter P u)"
  unfolding plain_discriminators_iff oneof_variant_fmfilter
  by (metis option.distinct(1))

lemma well_tagged_fmfilter: "well_tagged u \<Longrightarrow> well_tagged (fmfilter P u)"
  by (simp add: well_tagged_def plain_discriminators_fmfilter no_variant_named_fmfilter)

lemma flatten_JStr_iff:
  "transformOneOfFieldsRecursive visit x = JStr s \<longleftrightarrow> x = JStr s"
  by (cases x) auto

lemma malformed_wrapper_flatten:
  assumes "malformed_wrapper w" and "everywhere well_tagged w"
  shows "malformed_wrapper (transformOneOfFieldsRecursive visit w)"
proof (cases w)
  case (JObj u)
  let ?f = "transformOneOfFieldsRecursive visit"
  from assms(2) JObj have "well_tagged u" by simp
  then have u: "plain_discriminators u" and n: "no_variant_named ''object_type'' u"
    by (simp_all add: well_tagged_def)
  from flatten_object_plain[OF u, of visit] obtain r
    where r: "?f (JObj u) = JObj r"
      and C: "\<And>j. j \<notin> set (visit u) \<or> oneof_variant u j = None \<Longrightarrow>
                (\<And>k x. k \<in> set (visit u) \<Longrightarrow> oneof_variant u k \<noteq> Some (j, x)) \<Longrightarrow>
                fmlookup r j = map_option ?f (fmlookup u j)"
    by blast
  have "fmlookup r ''object_type'' = map_option ?f (fmlookup u ''object_type'')"
  proof (rule C)
    show "''object_type'' \<notin> set (visit u) \<or> oneof_variant u ''object_type'' = None"
      by (simp add: oneof_variant_def HasSuffix_def)
  next
    fix k x
    show "oneof_variant u k \<noteq> Some (''object_type'', x)"
    proof
      assume a: "oneof_variant u k = Some (''object_type'', x)"
      then have "k \<in> fmdom' u" by (simp add: oneof_variant_SomeD)
      with n a show False by (auto simp: no_variant_named_def)
    qed
  qed
  with assms(1) JObj r show ?thesis
    by (auto simp: malformed_wrapper_def flatten_JStr_iff split: option.splits json.splits)
qed (simp_all add: malformed_wrapper_def)

lemma flatten_settles:
  assumes "everywhere well_tagged w" and "\<And>v. fmdom' v \<subseteq> set (visit v)"
  shows "everywhere no_wrapper (transformOneOfFieldsRecursive visit w)"
  using assms
proof (induction visit w rule: transformOneOfFieldsRecursive.induct)
  case (1 visit v)
  let ?f = "transformOneOfFieldsRecursive visit"
  let ?r = "foldl oneof_step v (visit v)"
  have wt: "well_tagged v" and vals: "\<forall>z \<in> fmran' v. everywhere well_tagged z"
    using "1.prems"(1) by simp_all
  from wt have u: "plain_discriminators v" by (simp add: well_tagged_def)
  have ev: "\<forall>z \<in> fmran' ?r. everywhere well_tagged z"
    by (rule everywhere_loop[OF well_tagged_fmfilter vals])
  note L = oneof_loop_plain[OF u, of "visit v"]
  have "oneof_variant (fmmap ?f ?r) k = None" if kd: "k \<in> fmdom' ?r" for k
  proof (cases "HasSuffix k ''OneOfType''")
    case False
    then show ?thesis by (rule oneof_variant_no_suffix)
  next
    case True
    have nd: "oneof_variant v k0 \<noteq> Some (k, x)" for k0 x
      using plain_discriminatorsD[OF u, of k0 k x] True by blast
    have var: "oneof_variant v k = None"
    proof (rule ccontr)
      assume a: "oneof_variant v k \<noteq> None"
      then have "k \<in> fmdom' v" using oneof_variant_SomeD[of v k] by (cases "oneof_variant v k") auto
      with "1.prems"(2) have "k \<in> set (visit v)" by blast
      with a L have "fmlookup ?r k = None" by blast
      with kd show False by (simp add: fmlookup_dom'_iff)
    qed
    with nd L have same: "fmlookup ?r k = fmlookup v k" by blast
    with kd obtain w where w: "fmlookup v k = Some w" by (auto simp: fmlookup_dom'_iff)
    from oneof_variant_NoneD[OF var True w] have mw: "malformed_wrapper w" .
    from w vals have "everywhere well_tagged w" by (auto simp: fmlookup_ran'_iff)
    from malformed_wrapper_flatten[OF mw this] have "malformed_wrapper (?f w)" .
    moreover have "fmlookup (fmmap ?f ?r) k = Some (?f w)" using same w by simp
    ultimately show ?thesis by (rule oneof_variant_malformed[rotated])
  qed
  then have nw: "no_wrapper (fmmap ?f ?r)" by (simp add: no_wrapper_def)
  have "everywhere no_wrapper (?f z)" if "z \<in> fmran' ?r" for z
    using "1.IH"[OF that _ "1.prems"(2)] ev that by blast
  with nw show ?case by simp
next
  case (2 visit v)
  then show ?case by simp
qed simp_all

subsection \<open>Evaluating on concrete payloads\<close>

lemma fmran'_fmupd: "fmran' (fmupd k x m) = insert x (fmran' (fmdrop k m))"
  by (auto simp: fmlookup_ran'_iff split: if_splits)

lemma fmran'_fmempty: "fmran' fmempty = {}"
  by (auto simp: fmlookup_ran'_iff)

lemmas eval_simps = oneof_step_def oneof_variant_def HasSuffix_def unambiguous_def
  plain_discriminators_def only_variant_named_def
  no_wrapper_def no_variant_named_def well_tagged_def malformed_wrapper_def
  fmdrop_fmupd fmmap_fmupd fmran'_fmupd fmran'_fmempty

lemma flatten_single_wrapper:
  assumes var: "oneof_variant (fmupd K w fmempty) K = Some (T, x)"
    and nt: "\<not> HasSuffix T ''OneOfType''"
    and k: "K \<in> set (visit (fmupd K w fmempty))"
  shows "transformOneOfFieldsRecursive visit (JObj (fmupd K w fmempty)) =
         JObj (fmupd T (transformOneOfFieldsRecursive visit x) fmempty)"
proof -
  let ?M = "fmupd K w fmempty"
  let ?f = "transformOneOfFieldsRecursive visit"
  have only: "k' = K \<and> p = (T, x)" if "oneof_variant ?M k' = Some p" for k' p
  proof -
    from that have "k' \<in> fmdom' ?M" using oneof_variant_SomeD[of ?M k' "fst p" "snd p"] by simp
    then have "k' = K" by simp
    with that var show ?thesis by simp
  qed
  have u: "unambiguous ?M"
    unfolding unambiguous_iff using only nt by blast
  from flatten_object_lookup[OF u, of visit] obtain r
    where r: "?f (JObj ?M) = JObj r"
      and A: "\<And>k t x. k \<in> set (visit ?M) \<Longrightarrow> oneof_variant ?M k = Some (t, x) \<Longrightarrow>
                fmlookup r t = Some (?f x)"
      and B: "\<And>k. k \<in> set (visit ?M) \<Longrightarrow> oneof_variant ?M k \<noteq> None \<Longrightarrow> fmlookup r k = None"
      and C: "\<And>j. j \<notin> set (visit ?M) \<or> oneof_variant ?M j = None \<Longrightarrow>
                (\<And>k x. k \<in> set (visit ?M) \<Longrightarrow> oneof_variant ?M k \<noteq> Some (j, x)) \<Longrightarrow>
                fmlookup r j = map_option ?f (fmlookup ?M j)"
    by blast
  from var have hk: "HasSuffix K ''OneOfType''" by (simp add: oneof_variant_SomeD)
  with nt have TK: "T \<noteq> K" by auto
  have "r = fmupd T (?f x) fmempty"
  proof (rule fmap_ext)
    fix j
    show "fmlookup r j = fmlookup (fmupd T (?f x) fmempty) j"
    proof (cases "j = T")
      case True
      with A[OF k var] show ?thesis by simp
    next
      case False
      show ?thesis
      proof (cases "j = K")
        case True
        with B[OF k] var TK show ?thesis by simp
      next
        case jK: False
        have "fmlookup r j = map_option ?f (fmlookup ?M j)"
        proof (rule C)
          show "j \<notin> set (visit ?M) \<or> oneof_variant ?M j = None"
            using jK by (simp add: oneof_variant_absent)
        next
          fix k0 x0
          show "oneof_variant ?M k0 \<noteq> Some (j, x0)"
            using only[of k0 "(j, x0)"] False by auto
        qed
        with jK False show ?thesis by simp
      qed
    qed
  qed
  with r show ?thesis by simp
qed

lemma message_variant_scenario:
  assumes "''kindOneOfType'' \<in> set (visit message_variant_input)"
  shows "transformOneOfFieldsRecursive visit (JObj message_variant_input) =
         JObj (fmupd ''opt_a'' (JObj (fmupd ''value'' (JStr ''x'') fmempty)) fmempty)"
proof -
  have p: "transformOneOfFieldsRecursive visit (JObj (fmupd ''value'' (JStr ''x'') fmempty))
            = JObj (fmupd ''value'' (JStr ''x'') fmempty)"
    by (rule settled_fixed) (simp add: eval_simps)
  have "transformOneOfFieldsRecursive visit (JObj message_variant_input) =
        JObj (fmupd ''opt_a'' (transformOneOfFieldsRecursive visit
          (JObj (fmupd ''value'' (JStr ''x'') fmempty))) fmempty)"
    unfolding message_variant_input_def
    by (rule flatten_single_wrapper)
      (use assms in \<open>simp_all add: message_variant_input_def oneof_variant_def HasSuffix_def\<close>)
  with p show ?thesis by simp
qed

lemma primitive_variant_scenario:
  assumes "''kOneOfType'' \<in> set (visit primitive_variant_input)"
  shows "transformOneOfFieldsRecursive visit (JObj primitive_variant_input) =
         JObj (fmupd ''s'' (JObj (fmupd ''value'' (JStr ''hi'') fmempty)) fmempty)"
proof -
  have p: "transformOneOfFieldsRecursive visit (JObj (fmupd ''value'' (JStr ''hi'') fmempty))
            = JObj (fmupd ''value'' (JStr ''hi'') fmempty)"
    by (rule settled_fixed) (simp add: eval_simps)
  have d: "fmfilter (\<lambda>k. k \<noteq> ''object_type'')
             (fmupd ''object_type'' (JStr ''s'') (fmupd ''value'' (JStr ''hi'') fmempty))
           = fmupd ''value'' (JStr ''hi'') fmempty"
    by simp
  have "transformOneOfFieldsRecursive visit (JObj primitive_variant_input) =
        JObj (fmupd ''s'' (transformOneOfFieldsRecursive visit
          (JObj (fmupd ''value'' (JStr ''hi'') fmempty))) fmempty)"
    unfolding primitive_variant_input_def
    by (rule flatten_single_wrapper)
      (use assms in \<open>simp_all add: primitive_variant_input_def oneof_variant_def HasSuffix_def\<close>)
  with p show ?thesis by simp
qed

text \<open>
  What goes wrong without plain discriminators, and with a second wrapper carrying the
  same discriminator. In the first map the sibling's rewrite replaces the wrapper at
  \<^verbatim>\<open>kOneOfType\<close> by the number 7 before the loop reaches it, so the wrapper is neither
  removed nor promoted. In the second the variant of \<^verbatim>\<open>aOneOfType\<close> is overwritten by that
  of \<^verbatim>\<open>bOneOfType\<close>. In the third the first pass creates a wrapper entry that the loop
  does not reach, and the second pass rewrites it.
\<close>

lemma retargeted_wrapper_not_promoted:
  "only_variant_named ''a'' ''kOneOfType'' retargeting_input \<and>
   \<not> plain_discriminators retargeting_input \<and>
   transformOneOfFieldsRecursive (\<lambda>v. [''bOneOfType'', ''kOneOfType'']) (JObj retargeting_input) =
     JObj (fmupd ''kOneOfType'' (JNum 7) fmempty)"
  by (simp add: retargeting_input_def eval_simps)

lemma clashing_variant_overwritten:
  "plain_discriminators clashing_input \<and>
   \<not> only_variant_named ''x'' ''aOneOfType'' clashing_input \<and>
   oneof_variant clashing_input ''aOneOfType'' = Some (''x'', JNum 1) \<and>
   transformOneOfFieldsRecursive (\<lambda>v. [''aOneOfType'', ''bOneOfType'']) (JObj clashing_input) =
     JObj (fmupd ''x'' (JNum 2) fmempty)"
  by (simp add: clashing_input_def eval_simps)

lemma rewrapped_variant_rewritten_later:
  "everywhere (no_variant_named ''object_type'') (JObj rewrapping_input) \<and>
   \<not> plain_discriminators rewrapping_input \<and>
   transformOneOfFieldsRecursive (\<lambda>v. [''bOneOfType'', ''aOneOfType'']) (JObj rewrapping_input) =
     JObj (fmupd ''bOneOfType''
            (JObj (fmupd ''object_type'' (JStr ''c'') (fmupd ''c'' (JNum 1) fmempty))) fmempty) \<and>
   transformOneOfFieldsRecursive (\<lambda>v. [''bOneOfType'', ''aOneOfType''])
     (JObj (fmupd ''bOneOfType''
            (JObj (fmupd ''object_type'' (JStr ''c'') (fmupd ''c'' (JNum 1) fmempty))) fmempty)) =
     JObj (fmupd ''c'' (JNum 1) fmempty)"
  by (simp add: rewrapping_input_def eval_simps)

text \<open>
  The second loop recurses into every value of the map after the first loop, so what the
  result holds under the discriminator is the promoted payload flattened, and the value
  of a malformed wrapper that is kept is flattened as well.
\<close>

lemma promoted_payload_flattened:
  "transformOneOfFieldsRecursive (\<lambda>v. [''kOneOfType'', ''zOneOfType'']) (JObj nested_payload_input) =
     JObj (fmupd ''a'' (JObj (fmupd ''b'' (JNum 1) fmempty)) fmempty)"
  by (simp add: nested_payload_input_def eval_simps)

lemma malformed_wrapper_value_flattened:
  "malformed_wrapper (JObj (fmupd ''zOneOfType''
      (JObj (fmupd ''object_type'' (JStr ''b'') (fmupd ''b'' (JNum 1) fmempty))) fmempty)) \<and>
   transformOneOfFieldsRecursive (\<lambda>v. [''kOneOfType'', ''zOneOfType'']) (JObj nested_malformed_input) =
     JObj (fmupd ''kOneOfType'' (JObj (fmupd ''b'' (JNum 1) fmempty)) fmempty)"
  by (simp add: nested_malformed_input_def eval_simps)

text \<open>
  The four cases of \<^verbatim>\<open>TestOneOfTransformation\<close> (\<^verbatim>\<open>oneof_transform_test.go\<close>), for every
  order that reaches all keys: the model returns what the test expects.
\<close>

lemma flatten_plain_object:
  assumes "\<And>k. k \<in> fmdom' v \<Longrightarrow> \<not> HasSuffix k ''OneOfType''"
  shows "transformOneOfFieldsRecursive visit (JObj v) =
         JObj (fmmap (transformOneOfFieldsRecursive visit) v)"
proof -
  have "oneof_variant v k = None" for k
    using assms[of k] by (cases "k \<in> fmdom' v") (simp_all add: oneof_variant_no_suffix oneof_variant_absent fmdom'_notD)
  then have "foldl oneof_step v (visit v) = v"
    by (rule oneof_loop_idle)
  then show ?thesis by simp
qed

lemma TestOneOfTransformation:
  assumes "\<And>v. fmdom' v \<subseteq> set (visit v)"
  shows
    "transformOneOfFieldsRecursive visit
       (JObj (fmupd ''kindOneOfType''
          (JObj (fmupd ''object_type'' (JStr ''device_data_applications'')
             (fmupd ''device_data_applications''
                (JObj (fmupd ''application_code'' (JStr ''test_app'') fmempty)) fmempty)))
          fmempty)) =
     JObj (fmupd ''device_data_applications''
             (JObj (fmupd ''application_code'' (JStr ''test_app'') fmempty)) fmempty)"
    and
    "transformOneOfFieldsRecursive visit
       (JObj (fmupd ''someOneOfType''
          (JObj (fmupd ''object_type'' (JStr ''string_value'')
             (fmupd ''string_value'' (JStr ''hello'') fmempty)))
          fmempty)) =
     JObj (fmupd ''string_value'' (JStr ''hello'') fmempty)"
    and
    "transformOneOfFieldsRecursive visit
       (JObj (fmupd ''outer''
          (JObj (fmupd ''innerOneOfType''
             (JObj (fmupd ''object_type'' (JStr ''option_a'')
                (fmupd ''option_a'' (JObj (fmupd ''value'' (JStr ''test'') fmempty)) fmempty)))
             fmempty))
          fmempty)) =
     JObj (fmupd ''outer''
             (JObj (fmupd ''option_a'' (JObj (fmupd ''value'' (JStr ''test'') fmempty)) fmempty))
             fmempty)"
    and
    "transformOneOfFieldsRecursive visit
       (JObj (fmupd ''primitiveOneOfType''
          (JObj (fmupd ''object_type'' (JStr ''string_option'')
             (fmupd ''value'' (JStr ''hello world'')
               (fmupd ''extra_field'' (JNum 123) fmempty))))
          fmempty)) =
     JObj (fmupd ''string_option''
             (JObj (fmupd ''value'' (JStr ''hello world'')
               (fmupd ''extra_field'' (JNum 123) fmempty)))
             fmempty)"
proof -
  let ?f = "transformOneOfFieldsRecursive visit"
  have reach: "k \<in> set (visit (fmupd k w fmempty))" for k w
    using assms[of "fmupd k w fmempty"] by simp
  have p1: "?f (JObj (fmupd ''application_code'' (JStr ''test_app'') fmempty)) =
            JObj (fmupd ''application_code'' (JStr ''test_app'') fmempty)"
    by (rule settled_fixed) (simp add: eval_simps)
  have p3: "?f (JObj (fmupd ''value'' (JStr ''test'') fmempty)) =
            JObj (fmupd ''value'' (JStr ''test'') fmempty)"
    by (rule settled_fixed) (simp add: eval_simps)
  have p4: "?f (JObj (fmupd ''value'' (JStr ''hello world'')
               (fmupd ''extra_field'' (JNum 123) fmempty))) =
            JObj (fmupd ''value'' (JStr ''hello world'')
               (fmupd ''extra_field'' (JNum 123) fmempty))"
    by (rule settled_fixed) (simp add: eval_simps)
  show "?f (JObj (fmupd ''kindOneOfType''
          (JObj (fmupd ''object_type'' (JStr ''device_data_applications'')
             (fmupd ''device_data_applications''
                (JObj (fmupd ''application_code'' (JStr ''test_app'') fmempty)) fmempty)))
          fmempty)) =
     JObj (fmupd ''device_data_applications''
             (JObj (fmupd ''application_code'' (JStr ''test_app'') fmempty)) fmempty)"
    by (subst flatten_single_wrapper[where T = "''device_data_applications''"
          and x = "JObj (fmupd ''application_code'' (JStr ''test_app'') fmempty)"])
       (simp_all add: reach p1 oneof_variant_def HasSuffix_def del: transformOneOfFieldsRecursive.simps(1))
  show "?f (JObj (fmupd ''someOneOfType''
          (JObj (fmupd ''object_type'' (JStr ''string_value'')
             (fmupd ''string_value'' (JStr ''hello'') fmempty)))
          fmempty)) =
     JObj (fmupd ''string_value'' (JStr ''hello'') fmempty)"
    by (subst flatten_single_wrapper[where T = "''string_value''" and x = "JStr ''hello''"])
       (simp_all add: reach oneof_variant_def HasSuffix_def)
  have inner: "?f (JObj (fmupd ''innerOneOfType''
             (JObj (fmupd ''object_type'' (JStr ''option_a'')
                (fmupd ''option_a'' (JObj (fmupd ''value'' (JStr ''test'') fmempty)) fmempty)))
             fmempty)) =
        JObj (fmupd ''option_a'' (JObj (fmupd ''value'' (JStr ''test'') fmempty)) fmempty)"
    by (subst flatten_single_wrapper[where T = "''option_a''"
          and x = "JObj (fmupd ''value'' (JStr ''test'') fmempty)"])
       (simp_all add: reach p3 oneof_variant_def HasSuffix_def del: transformOneOfFieldsRecursive.simps(1))
  show "?f (JObj (fmupd ''outer''
          (JObj (fmupd ''innerOneOfType''
             (JObj (fmupd ''object_type'' (JStr ''option_a'')
                (fmupd ''option_a'' (JObj (fmupd ''value'' (JStr ''test'') fmempty)) fmempty)))
             fmempty))
          fmempty)) =
     JObj (fmupd ''outer''
             (JObj (fmupd ''option_a'' (JObj (fmupd ''value'' (JStr ''test'') fmempty)) fmempty))
             fmempty)"
    by (subst flatten_plain_object)
      (simp_all add: HasSuffix_def fmmap_fmupd inner del: transformOneOfFieldsRecursive.simps(1))
  have d: "fmfilter (\<lambda>k. k \<noteq> ''object_type'')
             (fmupd ''object_type'' (JStr ''string_option'')
               (fmupd ''value'' (JStr ''hello world'')
                 (fmupd ''extra_field'' (JNum 123) fmempty))) =
           fmupd ''value'' (JStr ''hello world'') (fmupd ''extra_field'' (JNum 123) fmempty)"
    by simp
  show "?f (JObj (fmupd ''primitiveOneOfType''
          (JObj (fmupd ''object_type'' (JStr ''string_option'')
             (fmupd ''value'' (JStr ''hello world'')
               (fmupd ''extra_field'' (JNum 123) fmempty))))
          fmempty)) =
     JObj (fmupd ''string_option''
             (JObj (fmupd ''value'' (JStr ''hello world'')
               (fmupd ''extra_field'' (JNum 123) fmempty)))
             fmempty)"
    by (subst flatten_single_wrapper[where T = "''string_option''"
          and x = "JObj (fmupd ''value'' (JStr ''hello world'')
               (fmupd ''extra_field'' (JNum 123) fmempty))"])
       (simp_all add: reach p4 oneof_variant_def HasSuffix_def del: transformOneOfFieldsRecursive.simps(1))
qed

section \<open>The claims about the union flattener\<close>

text \<open>
  In all statements \<open>visit\<close> is the order in which \<^verbatim>\<open>range\<close> goes through the keys of
  each map. A statement with a free \<open>visit\<close> holds for every order; a hypothesis such as
  \<open>K \<in> set (visit M)\<close> says that the loop reaches the key, which Go guarantees for every
  key present when the loop starts.
\<close>

subsection \<open>C1: a message-typed variant is promoted\<close>

text \<open>
  C1, as stated, fails when the discriminator is the wrapper's own key: for
  \<^verbatim>\<open>{"aOneOfType": {"object_type": "aOneOfType", "aOneOfType": 3}}\<close> the code stores the
  payload under \<^verbatim>\<open>aOneOfType\<close> and then deletes that key, so the result is the empty map
  and the payload is lost. The map has one key, so every order gives this result.
\<close>

theorem message_variant_counterexample:
  "HasSuffix ''aOneOfType'' ''OneOfType'' \<and>
   fmlookup self_tagged_message ''aOneOfType'' =
     Some (JObj (fmupd ''object_type'' (JStr ''aOneOfType'') (fmupd ''aOneOfType'' (JNum 3) fmempty))) \<and>
   transformOneOfFieldsRecursive (\<lambda>v. [''aOneOfType'']) (JObj self_tagged_message) = JObj fmempty"
  by (simp add: self_tagged_message_def eval_simps)

text \<open>
  C1 (amended). Let \<open>M\<close> be a map in which no wrapper's discriminator ends in
  \<^verbatim>\<open>OneOfType\<close>, and \<open>K\<close> a key of \<open>M\<close> ending in \<^verbatim>\<open>OneOfType\<close> whose value \<open>W\<close> is a map
  with a string \<open>T\<close> under \<^verbatim>\<open>object_type\<close> and a value \<open>p\<close> under \<open>T\<close>, such that no other
  wrapper of \<open>M\<close> carries the discriminator \<open>T\<close>. Then in the flattened map \<open>K\<close> is gone
  and \<open>T\<close> holds \<open>p\<close>, itself flattened (the function recurses into every value after
  the rewrite). Other wrappers of \<open>M\<close> may share a discriminator among themselves.
\<close>

theorem message_variant_promoted:
  assumes "plain_discriminators M"
    and "only_variant_named T K M"
    and "fmlookup M K = Some (JObj W)"
    and "HasSuffix K ''OneOfType''"
    and "fmlookup W ''object_type'' = Some (JStr T)"
    and "fmlookup W T = Some p"
    and "K \<in> set (visit M)"
  shows "\<exists>r. transformOneOfFieldsRecursive visit (JObj M) = JObj r \<and>
             fmlookup r K = None \<and>
             fmlookup r T = Some (transformOneOfFieldsRecursive visit p)"
proof -
  have var: "oneof_variant M K = Some (T, p)"
    using assms(3-6) by (simp add: oneof_variant_message)
  have only: "\<forall>k' x'. k' \<in> set (visit M) \<and> oneof_variant M k' = Some (T, x') \<longrightarrow> k' = K"
    using assms(2) unfolding only_variant_named_iff by blast
  from flatten_object_plain[OF assms(1), of visit] obtain r
    where r: "transformOneOfFieldsRecursive visit (JObj M) = JObj r"
      and A: "\<And>k t x. k \<in> set (visit M) \<Longrightarrow> oneof_variant M k = Some (t, x) \<Longrightarrow>
                \<forall>k' x'. k' \<in> set (visit M) \<and> oneof_variant M k' = Some (t, x') \<longrightarrow> k' = k \<Longrightarrow>
                fmlookup r t = Some (transformOneOfFieldsRecursive visit x)"
      and B: "\<And>k. k \<in> set (visit M) \<Longrightarrow> oneof_variant M k \<noteq> None \<Longrightarrow> fmlookup r k = None"
    by blast
  from A[OF assms(7) var only] B[OF assms(7)] var r show ?thesis by simp
qed

text \<open>
  The scenario of the specification is an instance: the wrapper \<^verbatim>\<open>kindOneOfType\<close> goes, and
  \<^verbatim>\<open>opt_a\<close> holds \<^verbatim>\<open>{"value": "x"}\<close>; the whole result is \<^verbatim>\<open>{"opt_a": {"value": "x"}}\<close>. So is
  the wrapper \<^verbatim>\<open>kOneOfType\<close> next to two wrappers that share the discriminator \<^verbatim>\<open>x\<close>.
\<close>

theorem message_variant_promoted_witness:
  "plain_discriminators message_variant_input \<and>
   only_variant_named ''opt_a'' ''kindOneOfType'' message_variant_input \<and>
   fmlookup message_variant_input ''kindOneOfType'' =
     Some (JObj (fmupd ''object_type'' (JStr ''opt_a'')
             (fmupd ''opt_a'' (JObj (fmupd ''value'' (JStr ''x'') fmempty)) fmempty))) \<and>
   HasSuffix ''kindOneOfType'' ''OneOfType'' \<and>
   ''kindOneOfType'' \<in> set (keys_sorted message_variant_input) \<and>
   (\<exists>r. transformOneOfFieldsRecursive keys_sorted (JObj message_variant_input) = JObj r \<and>
        fmlookup r ''kindOneOfType'' = None \<and>
        fmlookup r ''opt_a'' = Some (JObj (fmupd ''value'' (JStr ''x'') fmempty))) \<and>
   transformOneOfFieldsRecursive keys_sorted (JObj message_variant_input) =
     JObj (fmupd ''opt_a'' (JObj (fmupd ''value'' (JStr ''x'') fmempty)) fmempty) \<and>
   plain_discriminators busy_input \<and>
   only_variant_named ''a'' ''kOneOfType'' busy_input \<and>
   \<not> unambiguous busy_input \<and>
   ''kOneOfType'' \<in> set (keys_sorted busy_input) \<and>
   (\<exists>r. transformOneOfFieldsRecursive keys_sorted (JObj busy_input) = JObj r \<and>
        fmlookup r ''kOneOfType'' = None \<and>
        fmlookup r ''a'' = Some (JNum 1))"
proof -
  let ?W = "fmupd ''object_type'' (JStr ''opt_a'')
             (fmupd ''opt_a'' (JObj (fmupd ''value'' (JStr ''x'') fmempty)) fmempty)"
  have u: "plain_discriminators message_variant_input"
    by (simp add: message_variant_input_def eval_simps)
  have o: "only_variant_named ''opt_a'' ''kindOneOfType'' message_variant_input"
    by (simp add: message_variant_input_def eval_simps)
  have l: "fmlookup message_variant_input ''kindOneOfType'' = Some (JObj ?W)"
    by (simp add: message_variant_input_def)
  have s: "HasSuffix ''kindOneOfType'' ''OneOfType''"
    by (simp add: HasSuffix_def)
  have k: "''kindOneOfType'' \<in> set (keys_sorted message_variant_input)"
    by (simp add: keys_sorted_def message_variant_input_def)
  have p: "transformOneOfFieldsRecursive keys_sorted (JObj (fmupd ''value'' (JStr ''x'') fmempty))
            = JObj (fmupd ''value'' (JStr ''x'') fmempty)"
    by (rule settled_fixed) (simp add: eval_simps)
  have t: "fmlookup ?W ''object_type'' = Some (JStr ''opt_a'')"
    by simp
  have f: "fmlookup ?W ''opt_a'' = Some (JObj (fmupd ''value'' (JStr ''x'') fmempty))"
    by simp
  let ?V = "fmupd ''object_type'' (JStr ''a'') (fmupd ''a'' (JNum 1) fmempty)"
  have u2: "plain_discriminators busy_input"
    by (simp add: busy_input_def clashing_input_def eval_simps)
  have o2: "only_variant_named ''a'' ''kOneOfType'' busy_input"
    by (simp add: busy_input_def clashing_input_def eval_simps)
  have n2: "\<not> unambiguous busy_input"
    by (simp add: busy_input_def clashing_input_def eval_simps)
  have l2: "fmlookup busy_input ''kOneOfType'' = Some (JObj ?V)"
    by (simp add: busy_input_def)
  have s2: "HasSuffix ''kOneOfType'' ''OneOfType''"
    by (simp add: HasSuffix_def)
  have k2: "''kOneOfType'' \<in> set (keys_sorted busy_input)"
    by (simp add: keys_sorted_def busy_input_def)
  have t2: "fmlookup ?V ''object_type'' = Some (JStr ''a'')"
    by simp
  have f2: "fmlookup ?V ''a'' = Some (JNum 1)"
    by simp
  have first: "\<exists>r. transformOneOfFieldsRecursive keys_sorted (JObj message_variant_input) = JObj r \<and>
        fmlookup r ''kindOneOfType'' = None \<and>
        fmlookup r ''opt_a'' = Some (JObj (fmupd ''value'' (JStr ''x'') fmempty))"
    using message_variant_promoted[where visit = keys_sorted, OF u o l s t f k] p by simp
  have second: "\<exists>r. transformOneOfFieldsRecursive keys_sorted (JObj busy_input) = JObj r \<and>
        fmlookup r ''kOneOfType'' = None \<and>
        fmlookup r ''a'' = Some (JNum 1)"
    using message_variant_promoted[where visit = keys_sorted, OF u2 o2 l2 s2 t2 f2 k2] by simp
  from first second u o l s k u2 o2 n2 k2
    message_variant_scenario[where visit = keys_sorted, OF k]
  show ?thesis by blast
qed

subsection \<open>C2: a primitive variant is promoted as a group\<close>

text \<open>
  C2, as stated, fails in the same way as C1: for
  \<^verbatim>\<open>{"aOneOfType": {"object_type": "aOneOfType", "value": "hi"}}\<close> the new map is stored
  under \<^verbatim>\<open>aOneOfType\<close> and deleted at once; the result is the empty map.
\<close>

theorem primitive_variant_counterexample:
  "HasSuffix ''aOneOfType'' ''OneOfType'' \<and>
   fmlookup self_tagged_primitive ''aOneOfType'' =
     Some (JObj (fmupd ''object_type'' (JStr ''aOneOfType'')
                  (fmupd ''value'' (JStr ''hi'') fmempty))) \<and>
   transformOneOfFieldsRecursive (\<lambda>v. [''aOneOfType'']) (JObj self_tagged_primitive) = JObj fmempty"
  by (simp add: self_tagged_primitive_def eval_simps)

text \<open>
  C2 (amended). Let \<open>M\<close> be a map in which no wrapper's discriminator ends in
  \<^verbatim>\<open>OneOfType\<close>, and \<open>K\<close> a key of \<open>M\<close> ending in \<^verbatim>\<open>OneOfType\<close> whose value \<open>W\<close> is a map
  with a string \<open>T\<close> under \<^verbatim>\<open>object_type\<close> and no key \<open>T\<close>, such that no other wrapper of
  \<open>M\<close> carries the discriminator \<open>T\<close>. Then in the flattened map \<open>K\<close> is gone and \<open>T\<close>
  holds the map of all entries of \<open>W\<close> except \<^verbatim>\<open>object_type\<close>, itself flattened.
\<close>

theorem primitive_variant_promoted:
  assumes "plain_discriminators M"
    and "only_variant_named T K M"
    and "fmlookup M K = Some (JObj W)"
    and "HasSuffix K ''OneOfType''"
    and "fmlookup W ''object_type'' = Some (JStr T)"
    and "fmlookup W T = None"
    and "K \<in> set (visit M)"
  shows "\<exists>r. transformOneOfFieldsRecursive visit (JObj M) = JObj r \<and>
             fmlookup r K = None \<and>
             fmlookup r T =
               Some (transformOneOfFieldsRecursive visit (JObj (fmdrop ''object_type'' W)))"
proof -
  have var: "oneof_variant M K = Some (T, JObj (fmdrop ''object_type'' W))"
    using assms(3-6) by (simp add: oneof_variant_primitive)
  have only: "\<forall>k' x'. k' \<in> set (visit M) \<and> oneof_variant M k' = Some (T, x') \<longrightarrow> k' = K"
    using assms(2) unfolding only_variant_named_iff by blast
  from flatten_object_plain[OF assms(1), of visit] obtain r
    where r: "transformOneOfFieldsRecursive visit (JObj M) = JObj r"
      and A: "\<And>k t x. k \<in> set (visit M) \<Longrightarrow> oneof_variant M k = Some (t, x) \<Longrightarrow>
                \<forall>k' x'. k' \<in> set (visit M) \<and> oneof_variant M k' = Some (t, x') \<longrightarrow> k' = k \<Longrightarrow>
                fmlookup r t = Some (transformOneOfFieldsRecursive visit x)"
      and B: "\<And>k. k \<in> set (visit M) \<Longrightarrow> oneof_variant M k \<noteq> None \<Longrightarrow> fmlookup r k = None"
    by blast
  from A[OF assms(7) var only] B[OF assms(7)] var r show ?thesis by simp
qed

text \<open>
  The scenario of the specification is an instance:
  \<^verbatim>\<open>{"kOneOfType": {"object_type": "s", "value": "hi"}}\<close> becomes \<^verbatim>\<open>{"s": {"value": "hi"}}\<close>.
\<close>

theorem primitive_variant_promoted_witness:
  "plain_discriminators primitive_variant_input \<and>
   only_variant_named ''s'' ''kOneOfType'' primitive_variant_input \<and>
   fmlookup primitive_variant_input ''kOneOfType'' =
     Some (JObj (fmupd ''object_type'' (JStr ''s'') (fmupd ''value'' (JStr ''hi'') fmempty))) \<and>
   HasSuffix ''kOneOfType'' ''OneOfType'' \<and>
   ''kOneOfType'' \<in> set (keys_sorted primitive_variant_input) \<and>
   (\<exists>r. transformOneOfFieldsRecursive keys_sorted (JObj primitive_variant_input) = JObj r \<and>
        fmlookup r ''kOneOfType'' = None \<and>
        fmlookup r ''s'' = Some (JObj (fmupd ''value'' (JStr ''hi'') fmempty))) \<and>
   transformOneOfFieldsRecursive keys_sorted (JObj primitive_variant_input) =
     JObj (fmupd ''s'' (JObj (fmupd ''value'' (JStr ''hi'') fmempty)) fmempty)"
proof -
  let ?W = "fmupd ''object_type'' (JStr ''s'') (fmupd ''value'' (JStr ''hi'') fmempty)"
  have u: "plain_discriminators primitive_variant_input"
    by (simp add: primitive_variant_input_def eval_simps)
  have o: "only_variant_named ''s'' ''kOneOfType'' primitive_variant_input"
    by (simp add: primitive_variant_input_def eval_simps)
  have l: "fmlookup primitive_variant_input ''kOneOfType'' = Some (JObj ?W)"
    by (simp add: primitive_variant_input_def)
  have s: "HasSuffix ''kOneOfType'' ''OneOfType''"
    by (simp add: HasSuffix_def)
  have k: "''kOneOfType'' \<in> set (keys_sorted primitive_variant_input)"
    by (simp add: keys_sorted_def primitive_variant_input_def)
  have t: "fmlookup ?W ''object_type'' = Some (JStr ''s'')"
    by simp
  have f: "fmlookup ?W ''s'' = None"
    by simp
  have d: "fmdrop ''object_type'' ?W = fmupd ''value'' (JStr ''hi'') fmempty"
    by (simp add: fmdrop_fmupd)
  have p: "transformOneOfFieldsRecursive keys_sorted (JObj (fmupd ''value'' (JStr ''hi'') fmempty))
            = JObj (fmupd ''value'' (JStr ''hi'') fmempty)"
    by (rule settled_fixed) (simp add: eval_simps)
  from primitive_variant_promoted[where visit = keys_sorted, OF u o l s t f k]
  show ?thesis using u o l s k p d primitive_variant_scenario[where visit = keys_sorted, OF k] by simp
qed

subsection \<open>C7: idempotence\<close>

text \<open>
  C7, as stated, fails. In \<^verbatim>\<open>{"aOneOfType": {"zOneOfType": {"object_type": "object_type"}}}\<close>
  the outer wrapper is malformed (no \<^verbatim>\<open>object_type\<close>) and is kept by the first pass, but
  the rewrite of the inner wrapper gives it one: the first pass returns
  \<^verbatim>\<open>{"aOneOfType": {"object_type": "object_type"}}\<close>, the second
  \<^verbatim>\<open>{"object_type": "object_type"}\<close>. Every map involved has one key.
\<close>

theorem idempotence_counterexample:
  "transformOneOfFieldsRecursive (\<lambda>v. [''aOneOfType'', ''zOneOfType'']) (JObj retagging_input) =
     JObj (fmupd ''aOneOfType''
            (JObj (fmupd ''object_type'' (JStr ''object_type'') fmempty)) fmempty) \<and>
   transformOneOfFieldsRecursive (\<lambda>v. [''aOneOfType'', ''zOneOfType''])
     (transformOneOfFieldsRecursive (\<lambda>v. [''aOneOfType'', ''zOneOfType'']) (JObj retagging_input)) =
     JObj (fmupd ''object_type'' (JStr ''object_type'') fmempty) \<and>
   transformOneOfFieldsRecursive (\<lambda>v. [''aOneOfType'', ''zOneOfType''])
     (transformOneOfFieldsRecursive (\<lambda>v. [''aOneOfType'', ''zOneOfType'']) (JObj retagging_input)) \<noteq>
   transformOneOfFieldsRecursive (\<lambda>v. [''aOneOfType'', ''zOneOfType'']) (JObj retagging_input)"
proof -
  have once:
    "transformOneOfFieldsRecursive (\<lambda>v. [''aOneOfType'', ''zOneOfType'']) (JObj retagging_input) =
     JObj (fmupd ''aOneOfType''
            (JObj (fmupd ''object_type'' (JStr ''object_type'') fmempty)) fmempty)"
    by (simp add: retagging_input_def eval_simps)
  have twice:
    "transformOneOfFieldsRecursive (\<lambda>v. [''aOneOfType'', ''zOneOfType''])
       (JObj (fmupd ''aOneOfType''
            (JObj (fmupd ''object_type'' (JStr ''object_type'') fmempty)) fmempty)) =
     JObj (fmupd ''object_type'' (JStr ''object_type'') fmempty)"
    by (simp add: eval_simps)
  have ne: "fmupd ''object_type'' (JStr ''object_type'') fmempty \<noteq>
            fmupd ''aOneOfType''
              (JObj (fmupd ''object_type'' (JStr ''object_type'') fmempty)) fmempty"
  proof
    assume "fmupd ''object_type'' (JStr ''object_type'') fmempty =
            fmupd ''aOneOfType''
              (JObj (fmupd ''object_type'' (JStr ''object_type'') fmempty)) fmempty"
    then have "fmlookup (fmupd ''object_type'' (JStr ''object_type'') fmempty) ''object_type'' =
               fmlookup (fmupd ''aOneOfType''
                 (JObj (fmupd ''object_type'' (JStr ''object_type'') fmempty)) fmempty) ''object_type''"
      by simp
    then show False by simp
  qed
  show ?thesis unfolding once twice using ne by simp
qed

text \<open>
  C7 (amended). On every value in which, within each map, no wrapper's discriminator ends
  in \<^verbatim>\<open>OneOfType\<close> or is \<^verbatim>\<open>object_type\<close>, applying the flattener twice yields the same as
  applying it once: after a first pass in an order that reaches all keys, a second pass,
  in any order, changes nothing. Wrappers of one map may carry the same discriminator.
\<close>

theorem flatten_idempotent_well_tagged:
  assumes "everywhere well_tagged w" and "\<And>v. fmdom' v \<subseteq> set (visit v)"
  shows "transformOneOfFieldsRecursive visit' (transformOneOfFieldsRecursive visit w) =
         transformOneOfFieldsRecursive visit w"
  by (rule settled_fixed[OF flatten_settles[OF assms]])

text \<open>
  An instance with two wrappers that carry the same discriminator, where the result of
  the first pass depends on the order.
\<close>

theorem flatten_idempotent_well_tagged_witness:
  "everywhere well_tagged (JObj clashing_input) \<and>
   \<not> everywhere unambiguous (JObj clashing_input) \<and>
   (\<forall>v. fmdom' v \<subseteq> set (keys_sorted v)) \<and>
   transformOneOfFieldsRecursive (\<lambda>v. rev (keys_sorted v))
     (transformOneOfFieldsRecursive keys_sorted (JObj clashing_input)) =
   transformOneOfFieldsRecursive keys_sorted (JObj clashing_input)"
proof -
  have w: "everywhere well_tagged (JObj clashing_input)"
    by (simp add: clashing_input_def eval_simps)
  have n: "\<not> everywhere unambiguous (JObj clashing_input)"
    by (simp add: clashing_input_def eval_simps)
  have c: "fmdom' v \<subseteq> set (keys_sorted v)" for v
    by (simp add: keys_sorted_def fmdom'_alt_def)
  from flatten_idempotent_well_tagged[OF w c, of "\<lambda>v. rev (keys_sorted v)"] w n c
  show ?thesis by blast
qed

subsection \<open>C8: independence of the visiting order\<close>

text \<open>
  C8, as stated, fails: a rewrite at one key does write to a sibling key, the one named by
  the discriminator. With two wrappers carrying the same discriminator the last one
  visited wins: \<^verbatim>\<open>{"aOneOfType": {"object_type": "x", "x": 1}, "bOneOfType": {"object_type": "x", "x": 2}}\<close>
  flattens to \<^verbatim>\<open>{"x": 2}\<close> when \<^verbatim>\<open>aOneOfType\<close> is visited first and to \<^verbatim>\<open>{"x": 1}\<close>
  otherwise.
\<close>

theorem order_counterexample:
  "transformOneOfFieldsRecursive (\<lambda>v. [''aOneOfType'', ''bOneOfType'']) (JObj clashing_input) =
     JObj (fmupd ''x'' (JNum 2) fmempty) \<and>
   transformOneOfFieldsRecursive (\<lambda>v. [''bOneOfType'', ''aOneOfType'']) (JObj clashing_input) =
     JObj (fmupd ''x'' (JNum 1) fmempty) \<and>
   transformOneOfFieldsRecursive (\<lambda>v. [''aOneOfType'', ''bOneOfType'']) (JObj clashing_input) \<noteq>
   transformOneOfFieldsRecursive (\<lambda>v. [''bOneOfType'', ''aOneOfType'']) (JObj clashing_input)"
proof -
  have a: "transformOneOfFieldsRecursive (\<lambda>v. [''aOneOfType'', ''bOneOfType'']) (JObj clashing_input) =
     JObj (fmupd ''x'' (JNum 2) fmempty)"
    by (simp add: clashing_input_def eval_simps)
  have b: "transformOneOfFieldsRecursive (\<lambda>v. [''bOneOfType'', ''aOneOfType'']) (JObj clashing_input) =
     JObj (fmupd ''x'' (JNum 1) fmempty)"
    by (simp add: clashing_input_def eval_simps)
  have ne: "fmupd ''x'' (JNum 2) fmempty \<noteq> fmupd ''x'' (JNum 1) fmempty"
  proof
    assume "fmupd ''x'' (JNum 2) fmempty = fmupd ''x'' (JNum 1) fmempty"
    then have "fmlookup (fmupd ''x'' (JNum 2) fmempty) ''x'' =
               fmlookup (fmupd ''x'' (JNum 1) fmempty) ''x''"
      by simp
    then show False by simp
  qed
  show ?thesis unfolding a b using ne by simp
qed

text \<open>
  C8 (amended). On every value in which the wrappers of each map do not interfere (no
  discriminator ends in \<^verbatim>\<open>OneOfType\<close>, no two wrappers of one map carry the same
  discriminator), any two orders that reach all keys give the same result.
\<close>

theorem flatten_order_independent:
  assumes "everywhere unambiguous w"
    and "\<And>v. fmdom' v \<subseteq> set (visit1 v)"
    and "\<And>v. fmdom' v \<subseteq> set (visit2 v)"
  shows "transformOneOfFieldsRecursive visit1 w = transformOneOfFieldsRecursive visit2 w"
  using assms
proof (induction visit1 w rule: transformOneOfFieldsRecursive.induct)
  case (1 visit v)
  let ?r = "foldl oneof_step v (visit v)"
  have u: "unambiguous v" and vals: "\<forall>z \<in> fmran' v. everywhere unambiguous z"
    using "1.prems"(1) by simp_all
  have same: "foldl oneof_step v (visit2 v) = ?r"
    by (rule oneof_loop_order[OF u "1.prems"(3) "1.prems"(2)])
  have ev: "\<forall>z \<in> fmran' ?r. everywhere unambiguous z"
    by (rule everywhere_loop[OF unambiguous_fmfilter vals])
  have "fmmap (transformOneOfFieldsRecursive visit) ?r =
        fmmap (transformOneOfFieldsRecursive visit2) ?r"
  proof (rule fmap.map_cong[OF refl])
    fix z assume z: "z \<in> fmran' ?r"
    with ev have "everywhere unambiguous z" by blast
    from "1.IH"[OF z this "1.prems"(2) "1.prems"(3)]
    show "transformOneOfFieldsRecursive visit z = transformOneOfFieldsRecursive visit2 z" .
  qed
  with same show ?case by simp
next
  case (2 visit v)
  then show ?case by simp
qed simp_all

theorem flatten_order_independent_witness:
  "everywhere unambiguous (JObj two_unions_input) \<and>
   (\<forall>v. fmdom' v \<subseteq> set (keys_sorted v)) \<and>
   (\<forall>v. fmdom' v \<subseteq> set (rev (keys_sorted v))) \<and>
   transformOneOfFieldsRecursive keys_sorted (JObj two_unions_input) =
   transformOneOfFieldsRecursive (\<lambda>v. rev (keys_sorted v)) (JObj two_unions_input)"
proof -
  have w: "everywhere unambiguous (JObj two_unions_input)"
    by (simp add: two_unions_input_def eval_simps)
  have c1: "fmdom' v \<subseteq> set (keys_sorted v)" for v
    by (simp add: keys_sorted_def fmdom'_alt_def)
  have c2: "fmdom' v \<subseteq> set (rev (keys_sorted v))" for v
    by (simp add: keys_sorted_def fmdom'_alt_def)
  from flatten_order_independent[where ?visit1.0 = keys_sorted and ?visit2.0 = "\<lambda>v. rev (keys_sorted v)", OF w c1 c2]
    w c1 c2 show ?thesis by blast
qed

subsection \<open>C9: malformed wrappers\<close>




subsection \<open>C10: a sibling entry under the discriminator is overwritten\<close>

text \<open>
  C10. For the input \<^verbatim>\<open>{"kOneOfType": {"object_type": "x", "x": 1}, "x": 5}\<close>, which holds a
  wrapper with discriminator \<^verbatim>\<open>x\<close> and an entry under \<^verbatim>\<open>x\<close>, the flattened map holds the
  promoted value 1 under \<^verbatim>\<open>x\<close>, not 5, in every order that reaches the wrapper: a key other
  than the wrapper's is changed.
\<close>

theorem sibling_overwritten:
  assumes "''kOneOfType'' \<in> set (visit sibling_input)"
  shows "fmlookup sibling_input ''x'' = Some (JNum 5) \<and>
         (\<exists>r. transformOneOfFieldsRecursive visit (JObj sibling_input) = JObj r \<and>
              fmlookup r ''x'' = Some (JNum 1))"
proof -
  have u: "unambiguous sibling_input"
    by (simp add: sibling_input_def eval_simps)
  have var: "oneof_variant sibling_input ''kOneOfType'' = Some (''x'', JNum 1)"
    by (simp add: sibling_input_def oneof_variant_def HasSuffix_def)
  from flatten_object_lookup[OF u, of visit] obtain r
    where r: "transformOneOfFieldsRecursive visit (JObj sibling_input) = JObj r"
      and A: "\<And>k t x. k \<in> set (visit sibling_input) \<Longrightarrow> oneof_variant sibling_input k = Some (t, x) \<Longrightarrow>
                fmlookup r t = Some (transformOneOfFieldsRecursive visit x)"
    by blast
  from A[OF assms var] r show ?thesis by (simp add: sibling_input_def)
qed

theorem sibling_overwritten_witness:
  "''kOneOfType'' \<in> set (keys_sorted sibling_input) \<and>
   fmlookup sibling_input ''x'' = Some (JNum 5) \<and>
   (\<exists>r. transformOneOfFieldsRecursive keys_sorted (JObj sibling_input) = JObj r \<and>
        fmlookup r ''x'' = Some (JNum 1))"
proof -
  have k: "''kOneOfType'' \<in> set (keys_sorted sibling_input)"
    by (simp add: keys_sorted_def sibling_input_def)
  from sibling_overwritten[where visit = keys_sorted, OF k] k show ?thesis by simp
qed

section \<open>Properties of the schema compiler\<close>

subsection \<open>The model agrees with the tests\<close>

lemma kindToType_test_table:
  "kindToType other BoolKind = ''boolean''"
  "kindToType other StringKind = ''string''"
  "kindToType other Int32Kind = ''integer''"
  "kindToType other Int64Kind = ''string''"
  "kindToType other FloatKind = ''number''"
  "kindToType other DoubleKind = ''number''"
  "kindToType other BytesKind = ''string''"
  "kindToType other EnumKind = ''string''"
  by simp_all

lemma isFieldRequired_test_table:
  "isFieldRequiredWithOptionalSupport False (scalarField ''thumbnail'' BytesKind Singular None) = False"
  "isFieldRequiredWithOptionalSupport True (scalarField ''thumbnail'' BytesKind Singular None) = True"
  "isFieldRequiredWithOptionalSupport False
     ((scalarField ''description'' StringKind Singular None)\<lparr>HasOptionalKeyword := True\<rparr>) = False"
  "isFieldRequiredWithOptionalSupport True
     ((scalarField ''description'' StringKind Singular None)\<lparr>HasOptionalKeyword := True\<rparr>) = False"
  "isFieldRequiredWithOptionalSupport False
     ((scalarField ''name'' StringKind Singular None)\<lparr>RequiredAnnotation := True\<rparr>) = True"
  "isFieldRequiredWithOptionalSupport True
     ((scalarField ''name'' StringKind Singular None)\<lparr>RequiredAnnotation := True\<rparr>) = True"
  "isFieldRequiredWithOptionalSupport True (scalarField ''tags'' StringKind Repeated None) = False"
  "isFieldRequiredWithOptionalSupport True
     (scalarField ''labels'' StringKind (MapOf StringKind) None) = False"
  by (simp_all add: isFieldRequiredWithOptionalSupport_def scalarField_def)

lemmas required_simps = requiredNames_def requiredFields_def propertyNames_def
  isFieldRequiredWithOptionalSupport_def oneofGroups_def
  oneofPropertyName_def scalarField_def messageField_def List.map_filter_simps

text \<open>
  \<^verbatim>\<open>TestMessageSchemaWithOptionalSupport\<close>, called without extra properties: with
  optional-keyword support the test expects the oneof group among the required names;
  without it, the annotated field (a comment of the test has "only annotated field").
\<close>

lemma requiredNames_CreateItemRequest:
  "requiredNames False (\<lambda>g. False) [] CreateItemRequest = [''name'']"
  "requiredNames True (\<lambda>g. True) [] CreateItemRequest =
     [''name'', ''thumbnail'', ''item_typeOneOfType'']"
  by (simp_all add: CreateItemRequest_def required_simps)


text \<open>
  \<^verbatim>\<open>TestGetTypeStandard\<close>: a map field is an object with \<^verbatim>\<open>additionalProperties\<close> and
  \<^verbatim>\<open>propertyNames\<close>, and the well-known types have their inline schemas.
\<close>

lemma getType_test_table:
  "getType fuel oks req other pool defs (scalarField ''string_map'' StringKind (MapOf StringKind) None) =
     Some (Inr (obj [(''type'', JStr ''object''),
                     (''additionalProperties'', obj [(''type'', JStr ''string'')]),
                     (''propertyNames'', obj [(''type'', JStr ''string'')])], defs))"
  "getType fuel oks req other pool defs
     (messageField ''struct_field'' Singular ''google.protobuf.Struct'' None) =
     Some (Inr (obj [(''type'', JStr ''object''), (''additionalProperties'', JBool True)], defs))"
  "getType fuel oks req other pool defs
     (messageField ''value_field'' Singular ''google.protobuf.Value'' None) =
     Some (Inr (obj [(''description'', JStr ''dynamic JSON value (any JSON value)'')], defs))"
  "getType fuel oks req other pool defs
     (messageField ''list_value'' Singular ''google.protobuf.ListValue'' None) =
     Some (Inr (obj [(''type'', JStr ''array''), (''items'', obj []),
                     (''description'', JStr ''JSON array'')], defs))"
  "getType fuel oks req other pool defs
     (messageField ''timestamp'' Singular ''google.protobuf.Timestamp'' None) =
     Some (Inr (obj [(''type'', JArr [JStr ''string'', JStr ''null'']),
                     (''format'', JStr ''date-time'')], defs))"
  by (simp_all add: getType.simps scalarField_def messageField_def wellKnownSchema_def
      wrapCardinality_def scalarSchema_def)

lemma getType_scalar:
  "FieldKind fd \<noteq> MessageKind \<Longrightarrow>
   getType fuel oks req other pool defs fd =
     Some (Inr (wrapCardinality other fd (scalarSchema other fd), defs))"
  by (simp add: getType.simps)

lemma intercalate_lists:
  "n \<in> set names \<Longrightarrow> \<exists>pre post. intercalate sep names = pre @ n @ post"
proof (induction sep names rule: intercalate.induct)
  case (1 sep)
  then show ?case by simp
next
  case (2 sep x)
  then have "intercalate sep [x] = [] @ n @ []" by simp
  then show ?case by blast
next
  case (3 sep x y ys)
  show ?case
  proof (cases "n = x")
    case True
    then have "intercalate sep (x # y # ys) = [] @ n @ (sep @ intercalate sep (y # ys))" by simp
    then show ?thesis by blast
  next
    case False
    with "3.prems" have "n \<in> set (y # ys)" by simp
    from "3.IH"[OF this] obtain pre post where "intercalate sep (y # ys) = pre @ n @ post"
      by blast
    then have "intercalate sep (x # y # ys) = (x @ sep @ pre) @ n @ post" by simp
    then show ?thesis by blast
  qed
qed

subsection \<open>Growth of the definitions table\<close>















section \<open>The claims about the schema compiler\<close>

text \<open>
  In all statements \<open>oks\<close> is the optional-keyword support of the generator, \<open>req\<close> tells
  which oneof groups are required, \<open>other\<close> gives the type names of the kinds that neither
  the table of the specification nor \<^verbatim>\<open>TestKindToType\<close> names, and \<open>extras\<close> are the extra
  properties. A statement in which they are free holds for every choice of them.
\<close>

subsection \<open>C3: repeated and map fields are never required\<close>



subsection \<open>C4: cyclic reference graphs\<close>




subsection \<open>C5: enum fields\<close>

text \<open>
  C5, as stated, fails for a repeated enum field: its schema is the array schema of the
  table of section 4.1, whose \<^verbatim>\<open>type\<close> is \<^verbatim>\<open>array\<close>; the integer type and the description are
  those of its \<^verbatim>\<open>items\<close>.
\<close>

theorem enum_kind_counterexample:
  "FieldKind statuses_field = EnumKind \<and>
   getType 0 True (\<lambda>g. True) (\<lambda>k. ''string'') fmempty [] statuses_field =
     Some (Inr (obj [(''type'', JStr ''array''),
                     (''items'', obj [(''type'', JStr ''integer''),
                                      (''description'', JStr ''ACTIVE, INACTIVE'')])], []))"
  by (simp add: statuses_field_def scalarField_def getType.simps wrapCardinality_def
      scalarSchema_def)

text \<open>
  C5 (amended). For every singular FieldDescriptor of enum kind, \<^verbatim>\<open>getType\<close> produces a
  schema with \<^verbatim>\<open>type\<close> \<^verbatim>\<open>integer\<close> and a description in which every legal value name occurs.
  For a repeated or map field of enum kind this is the schema of the elements or values,
  inside the array or object schema of the field.
\<close>

theorem enum_kind_type:
  assumes "FieldKind fd = EnumKind"
  shows "\<exists>s d. scalarSchema other fd = JObj s \<and>
           fmlookup s ''type'' = Some (JStr ''integer'') \<and>
           fmlookup s ''description'' = Some (JStr d) \<and>
           (\<forall>n \<in> set (EnumValueNames fd). \<exists>pre post. d = pre @ n @ post) \<and>
           getType fuel oks req other pool defs fd =
             Some (Inr (wrapCardinality other fd (JObj s), defs)) \<and>
           (FieldCardinality fd = Singular \<longrightarrow>
              getType fuel oks req other pool defs fd = Some (Inr (JObj s, defs)))"
proof -
  let ?s = "fmap_of_list [(''type'', JStr ''integer''),
              (''description'', JStr (intercalate '', '' (EnumValueNames fd)))]"
  have s: "scalarSchema other fd = JObj ?s"
    using assms by (simp add: scalarSchema_def obj_def)
  have g: "getType fuel oks req other pool defs fd =
             Some (Inr (wrapCardinality other fd (JObj ?s), defs))"
    using assms s by (simp add: getType_scalar)
  have w: "FieldCardinality fd = Singular \<longrightarrow> wrapCardinality other fd (JObj ?s) = JObj ?s"
    by (simp add: wrapCardinality_def)
  have l: "\<forall>n \<in> set (EnumValueNames fd).
             \<exists>pre post. intercalate '', '' (EnumValueNames fd) = pre @ n @ post"
    by (simp add: intercalate_lists)
  have t: "fmlookup ?s ''type'' = Some (JStr ''integer'')"
    and d: "fmlookup ?s ''description'' = Some (JStr (intercalate '', '' (EnumValueNames fd)))"
    by (simp_all add: fmlookup_of_list)
  from s g w l t d show ?thesis by auto
qed

theorem enum_kind_type_witness:
  "FieldKind status_field = EnumKind \<and>
   FieldCardinality status_field = Singular \<and>
   EnumValueNames status_field = [''ACTIVE'', ''INACTIVE''] \<and>
   getType 0 True (\<lambda>g. True) (\<lambda>k. ''string'') fmempty [] status_field =
     Some (Inr (obj [(''type'', JStr ''integer''), (''description'', JStr ''ACTIVE, INACTIVE'')], []))"
proof -
  have k: "FieldKind status_field = EnumKind"
    by (simp add: status_field_def scalarField_def)
  have c: "FieldCardinality status_field = Singular"
    by (simp add: status_field_def scalarField_def)
  have s: "scalarSchema (\<lambda>k. ''string'') status_field =
      obj [(''type'', JStr ''integer''), (''description'', JStr ''ACTIVE, INACTIVE'')]"
    by (simp add: status_field_def scalarField_def scalarSchema_def)
  from enum_kind_type[OF k, of "\<lambda>k. ''string''" 0 True "\<lambda>g. True" fmempty "[]"] k c s
  show ?thesis by (auto simp: status_field_def scalarField_def)
qed

subsection \<open>C6: 64-bit integer fields\<close>

text \<open>
  C6, as stated, fails for a repeated field of a 64-bit integer kind: its schema is the
  array schema of the table of section 4.1, whose \<^verbatim>\<open>type\<close> is \<^verbatim>\<open>array\<close>, not \<^verbatim>\<open>string\<close>; the
  string type is that of its \<^verbatim>\<open>items\<close>.
\<close>

theorem int64_kinds_counterexample:
  "FieldKind (scalarField ''ids'' Int64Kind Repeated None) = Int64Kind \<and>
   getType 0 True (\<lambda>g. True) (\<lambda>k. ''integer'') fmempty [] (scalarField ''ids'' Int64Kind Repeated None) =
     Some (Inr (obj [(''type'', JStr ''array''), (''items'', obj [(''type'', JStr ''string'')])], []))"
  by (simp add: scalarField_def getType.simps wrapCardinality_def scalarSchema_def)

text \<open>
  C6 (amended). For every FieldDescriptor of kind int64, uint64, sint64 or fixed64,
  \<^verbatim>\<open>kindToType\<close> gives \<^verbatim>\<open>"string"\<close>, never \<^verbatim>\<open>"integer"\<close> or \<^verbatim>\<open>"number"\<close>, and when the field is
  singular \<^verbatim>\<open>getType\<close> produces \<^verbatim>\<open>{"type": "string"}\<close>. For a repeated or map field of such a
  kind this is the schema of the elements or values, inside the array or object schema
  of the field.
\<close>

theorem int64_kinds_type:
  assumes "FieldKind fd = Int64Kind \<or> FieldKind fd = Uint64Kind \<or>
           FieldKind fd = Sint64Kind \<or> FieldKind fd = Fixed64Kind"
  shows "kindToType other (FieldKind fd) = ''string'' \<and>
         kindToType other (FieldKind fd) \<noteq> ''integer'' \<and>
         kindToType other (FieldKind fd) \<noteq> ''number'' \<and>
         scalarSchema other fd = obj [(''type'', JStr ''string'')] \<and>
         getType fuel oks req other pool defs fd =
           Some (Inr (wrapCardinality other fd (obj [(''type'', JStr ''string'')]), defs)) \<and>
         (FieldCardinality fd = Singular \<longrightarrow>
            getType fuel oks req other pool defs fd =
              Some (Inr (obj [(''type'', JStr ''string'')], defs)))"
  using assms by (auto simp: getType_scalar scalarSchema_def wrapCardinality_def)

text \<open>
  Instances: a singular \<^verbatim>\<open>int64\<close> field, and a map from strings to \<^verbatim>\<open>uint64\<close>, whose values
  have the string schema.
\<close>

theorem int64_kinds_type_witness:
  "FieldKind (scalarField ''id'' Int64Kind Singular None) = Int64Kind \<and>
   FieldCardinality (scalarField ''id'' Int64Kind Singular None) = Singular \<and>
   kindToType (\<lambda>k. ''integer'') Int64Kind = ''string'' \<and>
   getType 0 True (\<lambda>g. True) (\<lambda>k. ''integer'') fmempty [] (scalarField ''id'' Int64Kind Singular None) =
     Some (Inr (obj [(''type'', JStr ''string'')], [])) \<and>
   FieldKind (scalarField ''counts'' Uint64Kind (MapOf StringKind) None) = Uint64Kind \<and>
   getType 0 True (\<lambda>g. True) (\<lambda>k. ''integer'') fmempty []
       (scalarField ''counts'' Uint64Kind (MapOf StringKind) None) =
     Some (Inr (obj [(''type'', JStr ''object''),
                     (''additionalProperties'', obj [(''type'', JStr ''string'')]),
                     (''propertyNames'', obj [(''type'', JStr ''string'')])], []))"
proof -
  let ?fd = "scalarField ''id'' Int64Kind Singular None"
  let ?md = "scalarField ''counts'' Uint64Kind (MapOf StringKind) None"
  have k: "FieldKind ?fd = Int64Kind \<or> FieldKind ?fd = Uint64Kind \<or>
           FieldKind ?fd = Sint64Kind \<or> FieldKind ?fd = Fixed64Kind"
    by (simp add: scalarField_def)
  have m: "FieldKind ?md = Int64Kind \<or> FieldKind ?md = Uint64Kind \<or>
           FieldKind ?md = Sint64Kind \<or> FieldKind ?md = Fixed64Kind"
    by (simp add: scalarField_def)
  have first: "getType 0 True (\<lambda>g. True) (\<lambda>k. ''integer'') fmempty [] ?fd =
     Some (Inr (obj [(''type'', JStr ''string'')], []))"
    using int64_kinds_type[OF k, of "\<lambda>k. ''integer''" 0 True "\<lambda>g. True" fmempty "[]"]
    by (simp add: scalarField_def wrapCardinality_def)
  have second: "getType 0 True (\<lambda>g. True) (\<lambda>k. ''integer'') fmempty [] ?md =
     Some (Inr (obj [(''type'', JStr ''object''),
                     (''additionalProperties'', obj [(''type'', JStr ''string'')]),
                     (''propertyNames'', obj [(''type'', JStr ''string'')])], []))"
    using int64_kinds_type[OF m, of "\<lambda>k. ''integer''" 0 True "\<lambda>g. True" fmempty "[]"]
    by (simp add: scalarField_def wrapCardinality_def)
  from first second show ?thesis by (simp add: scalarField_def)
qed

end
